theory Spec2Isabelle
  imports Complex_Main "HOL-Library.AList"
begin

section \<open>Conventions of the embedding\<close>

text \<open>
  A JavaScript \<^verbatim>\<open>number\<close> is modelled as a \<^typ>\<open>real\<close>; NaN and the infinities are
  left out. The store and the reading synthesizer are modelled in exact arithmetic. The
  damage line of the earthquake engine and the fatigue tracker, whose results are
  rounded to integers or compared with thresholds, are modelled in the arithmetic of an
  \<open>Arith\<close> (below), which says how the result of every operation is rounded; the damage
  line is given in exact arithmetic as well, for the statements that depend on the sign
  of the deltas only. \<^verbatim>\<open>Date.now()\<close> is an integer
  count of milliseconds, passed in as an argument \<open>now\<close>; the clock stands still while
  one action runs. Every call of \<^verbatim>\<open>Math.random()\<close> is an argument as well (a draw
  from \<open>[0, 1)\<close>); the range of the draws is stated where a result depends on it.

  A JavaScript \<^verbatim>\<open>Map\<close> is an association list in insertion order:
  \<^verbatim>\<open>get\<close> is \<^const>\<open>map_of\<close>, \<^verbatim>\<open>set\<close> is \<^const>\<open>AList.update\<close> (an existing key keeps
  its position, a new key is appended), \<^verbatim>\<open>delete\<close> is \<^const>\<open>AList.delete\<close>, and
  \<^verbatim>\<open>forEach\<close> is a \<^const>\<open>fold\<close> from the left. A \<^verbatim>\<open>Set\<close> of ids is a list of
  ids with \<^verbatim>\<open>has\<close> as membership.

  Names are those of the source, but for \<open>node_id\<close> (the node's \<^verbatim>\<open>id\<close>),
  \<open>critical_count\<close> (the summary's \<^verbatim>\<open>critical\<close>), \<open>anomaly_signal\<close> (the signal type
  \<^verbatim>\<open>anomaly\<close>) and \<open>update_tracker\<close> (the tracker's \<^verbatim>\<open>update\<close>), whose names are
  taken.
\<close>

type_synonym ('k, 'v) jsmap = "('k \<times> 'v) list"

text \<open>
  Double arithmetic. \<open>fl x\<close> is the double that the exact result \<open>x\<close> of \<^verbatim>\<open>+\<close>,
  \<^verbatim>\<open>-\<close>, \<^verbatim>\<open>*\<close> or \<^verbatim>\<open>/\<close> is rounded to, and the double that a decimal literal
  such as \<^verbatim>\<open>1.4\<close> denotes; \<open>pow2 x\<close> is the value of \<^verbatim>\<open>x ** 2\<close> and \<open>msqrt x\<close> the
  value of \<^verbatim>\<open>Math.sqrt(x)\<close>, which the language leaves to the implementation. Integers
  and binary fractions such as \<^verbatim>\<open>25\<close> and \<^verbatim>\<open>0.5\<close> are doubles and stand for
  themselves; \<^verbatim>\<open>Math.min\<close>, \<^verbatim>\<open>Math.max\<close>, \<^verbatim>\<open>Math.round\<close> and the comparisons are
  exact on doubles. A definition that takes an \<open>Arith\<close> applies \<open>fl\<close> after every
  operation, in the order in which the source evaluates the expression; the program is
  its instance at the rounding of IEEE 754, and \<open>exactArith\<close> is the instance that
  rounds nothing.
\<close>

record Arith =
  fl :: "real \<Rightarrow> real"
  pow2 :: "real \<Rightarrow> real"
  msqrt :: "real \<Rightarrow> real"

definition exactArith :: Arith where
  "exactArith = \<lparr> fl = (\<lambda>x. x), pow2 = (\<lambda>x. x\<^sup>2), msqrt = sqrt \<rparr>"

text \<open>Rounding keeps the sign: a result that is not negative rounds to a double that is not negative.\<close>

definition keepsSign :: "Arith \<Rightarrow> bool" where
  "keepsSign a = (\<forall>x. 0 \<le> x \<longrightarrow> 0 \<le> fl a x)"

text \<open>
  The rounding of IEEE 754 binary64, to nearest with ties to even. \<open>binexp x\<close> is the
  binary exponent of a positive \<open>x\<close>: the integer \<open>e\<close> for which \<open>x\<close> lies between
  \<open>twoTo e\<close> and \<open>twoTo (e + 1)\<close>. A double of that exponent is a multiple of
  \<open>twoTo (e - 52)\<close>, and a subnormal one a multiple of \<open>twoTo (- 1074)\<close>. Results beyond
  the largest double, which the program would hold as an infinity, are left out. In
  \<open>binary64\<close>, \<^verbatim>\<open>x ** 2\<close> is taken to be the rounded square and \<^verbatim>\<open>Math.sqrt\<close> the
  rounded square root.
\<close>

function binexp :: "real \<Rightarrow> int" where
  "binexp x = (if x \<le> 0 then 0
               else if x < 1 then binexp (2 * x) - 1
               else if 2 \<le> x then binexp (x / 2) + 1
               else 0)"
  by auto
termination
proof (relation "measure (\<lambda>x. if 1 \<le> x \<and> x < 2 then 0 else 1 + nat \<lfloor>\<bar>log 2 x\<bar>\<rfloor>)")
  show "wf (measure (\<lambda>x. if 1 \<le> x \<and> x < 2 then 0 else 1 + nat \<lfloor>\<bar>log 2 x\<bar>\<rfloor>))" by simp
next
  fix x :: real assume "\<not> x \<le> 0" "x < 1"
  then have x: "0 < x" "x < 1" by simp_all
  have l: "log 2 (2 * x) = 1 + log 2 x" using x by (simp add: log_mult)
  have n: "log 2 x < 0" using x by simp
  show "(2 * x, x) \<in> measure (\<lambda>x. if 1 \<le> x \<and> x < 2 then 0 else 1 + nat \<lfloor>\<bar>log 2 x\<bar>\<rfloor>)"
  proof (cases "1 \<le> 2 * x")
    case True then show ?thesis using x by simp
  next
    case False
    then have "log 2 (2 * x) < 0" using x by simp
    then have "\<bar>log 2 (2 * x)\<bar> = \<bar>log 2 x\<bar> - 1" using l n by simp
    moreover have "1 \<le> \<bar>log 2 x\<bar>" using l \<open>log 2 (2 * x) < 0\<close> by simp
    ultimately have "nat \<lfloor>\<bar>log 2 (2 * x)\<bar>\<rfloor> < nat \<lfloor>\<bar>log 2 x\<bar>\<rfloor>"
      by (simp add: nat_less_iff)
    then show ?thesis using x False by simp
  qed
next
  fix x :: real assume "\<not> x \<le> 0" "\<not> x < 1" "2 \<le> x"
  then have x: "2 \<le> x" by simp
  have l: "log 2 (x / 2) = log 2 x - 1" using x by (simp add: log_divide)
  have n: "1 \<le> log 2 x" using x by (simp add: le_log_iff)
  show "(x / 2, x) \<in> measure (\<lambda>x. if 1 \<le> x \<and> x < 2 then 0 else 1 + nat \<lfloor>\<bar>log 2 x\<bar>\<rfloor>)"
  proof (cases "x / 2 < 2")
    case True then show ?thesis using x by simp
  next
    case False
    then have "1 \<le> log 2 (x / 2)" by (simp add: le_log_iff)
    then have "\<bar>log 2 (x / 2)\<bar> = \<bar>log 2 x\<bar> - 1" using l n by simp
    moreover have "1 \<le> \<bar>log 2 x\<bar>" using n by simp
    ultimately have "nat \<lfloor>\<bar>log 2 (x / 2)\<bar>\<rfloor> < nat \<lfloor>\<bar>log 2 x\<bar>\<rfloor>"
      by (simp add: nat_less_iff)
    then show ?thesis using x False by simp
  qed
qed

definition twoTo :: "int \<Rightarrow> real" where
  "twoTo k = (if 0 \<le> k then 2 ^ nat k else 1 / 2 ^ nat (- k))"

definition roundTiesToEven :: "real \<Rightarrow> int" where
  "roundTiesToEven x =
     (let f = \<lfloor>x\<rfloor>; d = x - of_int f
      in if d < 1 / 2 then f else if 1 / 2 < d then f + 1 else if even f then f else f + 1)"

definition binary64_fl :: "real \<Rightarrow> real" where
  "binary64_fl x =
     (if x = 0 then 0
      else (let u = twoTo (max (binexp \<bar>x\<bar> - 52) (- 1074))
            in sgn x * of_int (roundTiesToEven (\<bar>x\<bar> / u)) * u))"

definition binary64 :: Arith where
  "binary64 = \<lparr> fl = binary64_fl, pow2 = (\<lambda>x. binary64_fl (x * x)),
                msqrt = (\<lambda>x. binary64_fl (sqrt x)) \<rparr>"

definition newMap :: "('k \<times> 'v) list \<Rightarrow> ('k, 'v) jsmap" where
  "newMap entries = fold (\<lambda>(k, v) m. AList.update k v m) entries []"

section \<open>Damage ledger and consensus detector (the store)\<close>

datatype NodeStatus = stable | anomaly | warning | critical | collapse | collapse_inferred

record Node =
  node_id :: string
  name :: string
  status :: NodeStatus
  lat :: real
  lng :: real
  is_physical :: bool

record BuildingSummary =
  safe :: nat
  damaged :: nat
  critical_count :: nat
  collapsed :: nat

record BuildingDamage =
  baseScore :: real
  earthquakeDamage :: real
  totalScore :: real

record SeismosState =
  nodes :: "(string, Node) jsmap"
  selectedNodeId :: "string option"
  buildingDamages :: "(string, BuildingDamage) jsmap"
  isEarthquakeActive :: bool
  earthquakeProgress :: real
  buildingSummary :: BuildingSummary
  activeNodeCount :: nat
  lastHeartbeat :: "(string, int) jsmap"
  consensusEvidence :: "(string, string list) jsmap"

fun getStatusFromScore :: "real \<Rightarrow> NodeStatus" where
  "getStatusFromScore score =
     (if score \<ge> 90 then collapse
      else if score \<ge> 70 then critical
      else if score \<ge> 30 then warning
      else if score \<ge> 15 then anomaly
      else stable)"

definition initialState :: SeismosState where
  "initialState =
     \<lparr> nodes = [], selectedNodeId = None, buildingDamages = [],
       isEarthquakeActive = False, earthquakeProgress = 0,
       buildingSummary = \<lparr> safe = 0, damaged = 0, critical_count = 0, collapsed = 0 \<rparr>,
       activeNodeCount = 0, lastHeartbeat = [], consensusEvidence = [] \<rparr>"

text \<open>
  The base score drawn for the building at position \<open>index\<close>, from the draw \<open>r\<close> of
  \<^verbatim>\<open>Math.random()\<close>: \<^verbatim>\<open>30 + Math.floor(r * 15)\<close> for the first two buildings,
  \<^verbatim>\<open>Math.floor(r * 26)\<close> for the others (the same lines in \<^verbatim>\<open>setNodes\<close> and
  \<^verbatim>\<open>resetToSafe\<close>).
\<close>

definition drawBaseScore :: "nat \<Rightarrow> real \<Rightarrow> real" where
  "drawBaseScore index r =
     (if index = 0 \<or> index = 1 then 30 + of_int \<lfloor>r * 15\<rfloor> else of_int \<lfloor>r * 26\<rfloor>)"

definition freshDamage :: "real \<Rightarrow> BuildingDamage" where
  "freshDamage b = \<lparr> baseScore = b, earthquakeDamage = 0, totalScore = b \<rparr>"

text \<open>The summary counted from the scores (\<^verbatim>\<open>setNodes\<close>, \<^verbatim>\<open>resetToSafe\<close>).\<close>

definition countByScore :: "BuildingDamage \<Rightarrow> BuildingSummary \<Rightarrow> BuildingSummary" where
  "countByScore d acc =
     (let score = totalScore d in
      if score \<ge> 90 then acc\<lparr>collapsed := collapsed acc + 1\<rparr>
      else if score \<ge> 70 then acc\<lparr>critical_count := critical_count acc + 1\<rparr>
      else if score \<ge> 30 then acc\<lparr>damaged := damaged acc + 1\<rparr>
      else acc\<lparr>safe := safe acc + 1\<rparr>)"

definition summaryOfDamages :: "(string, BuildingDamage) jsmap \<Rightarrow> BuildingSummary" where
  "summaryOfDamages dm =
     fold (\<lambda>(_, d). countByScore d) dm
       \<lparr> safe = 0, damaged = 0, critical_count = 0, collapsed = 0 \<rparr>"

text \<open>The summary counted from the statuses (\<^verbatim>\<open>updateBuildingSummary\<close>).\<close>

definition countByStatus :: "Node \<Rightarrow> BuildingSummary \<Rightarrow> BuildingSummary" where
  "countByStatus n acc =
     (if status n = collapse \<or> status n = collapse_inferred
        then acc\<lparr>collapsed := collapsed acc + 1\<rparr>
      else if status n = critical then acc\<lparr>critical_count := critical_count acc + 1\<rparr>
      else if status n = warning then acc\<lparr>damaged := damaged acc + 1\<rparr>
      else acc\<lparr>safe := safe acc + 1\<rparr>)"

definition updateBuildingSummary :: "SeismosState \<Rightarrow> SeismosState" where
  "updateBuildingSummary state =
     state\<lparr>buildingSummary :=
       fold (\<lambda>(_, n). countByStatus n) (nodes state)
         \<lparr> safe = 0, damaged = 0, critical_count = 0, collapsed = 0 \<rparr>\<rparr>"

subsection \<open>setNodes\<close>

text \<open>
  \<open>rnd i\<close> is the draw made for the node at array index \<open>i\<close>. The second loop of the
  source walks the damage map and writes the derived status into the node of the same id.
\<close>

definition assignBaseScores ::
  "(nat \<Rightarrow> real) \<Rightarrow> (nat \<times> string) list \<Rightarrow> (string, BuildingDamage) jsmap
    \<Rightarrow> (string, BuildingDamage) jsmap" where
  "assignBaseScores rnd ixs dm =
     fold (\<lambda>(index, k) m. AList.update k (freshDamage (drawBaseScore index (rnd index))) m) ixs dm"

definition deriveStatuses ::
  "(string, BuildingDamage) jsmap \<Rightarrow> (string, Node) jsmap \<Rightarrow> (string, Node) jsmap" where
  "deriveStatuses dm nodeMap =
     fold (\<lambda>(nodeId, damage) m.
        case map_of m nodeId of
          None \<Rightarrow> m
        | Some node \<Rightarrow> AList.update nodeId (node\<lparr>status := getStatusFromScore (totalScore damage)\<rparr>) m)
       dm nodeMap"

definition setNodes :: "Node list \<Rightarrow> (nat \<Rightarrow> real) \<Rightarrow> int \<Rightarrow> SeismosState \<Rightarrow> SeismosState" where
  "setNodes ns rnd now state =
     (let nodeMap = newMap (map (\<lambda>n. (node_id n, n)) ns);
          damageMap = assignBaseScores rnd (enumerate 0 (map node_id ns)) [];
          nodeMap' = deriveStatuses damageMap nodeMap
      in state\<lparr> nodes := nodeMap',
                buildingDamages := damageMap,
                activeNodeCount := length ns,
                buildingSummary := summaryOfDamages damageMap,
                lastHeartbeat := newMap (map (\<lambda>n. (node_id n, now)) ns) \<rparr>)"

subsection \<open>Plain setters and the heartbeat\<close>

definition selectNode :: "string option \<Rightarrow> SeismosState \<Rightarrow> SeismosState" where
  "selectNode nodeId state = state\<lparr>selectedNodeId := nodeId\<rparr>"

definition setEarthquakeActive :: "bool \<Rightarrow> SeismosState \<Rightarrow> SeismosState" where
  "setEarthquakeActive active state =
     state\<lparr>isEarthquakeActive := active, earthquakeProgress := (if active then 0 else 100)\<rparr>"

definition setEarthquakeProgress :: "real \<Rightarrow> SeismosState \<Rightarrow> SeismosState" where
  "setEarthquakeProgress progress state = state\<lparr>earthquakeProgress := progress\<rparr>"

definition updateHeartbeat :: "string list \<Rightarrow> int \<Rightarrow> SeismosState \<Rightarrow> SeismosState" where
  "updateHeartbeat nodeIds now state =
     state\<lparr>lastHeartbeat := fold (\<lambda>k m. AList.update k now m) nodeIds (lastHeartbeat state)\<rparr>"

subsection \<open>applyEarthquakeDamage\<close>

text \<open>
  One iteration of \<^verbatim>\<open>damages.forEach\<close>. A delta for an id without a damage record is
  skipped. The status is rewritten from the new total unless the node is
  \<^const>\<open>collapse_inferred\<close>. The scores handed to the simulator afterwards are
  \<open>allScores\<close> below.
\<close>

fun applyDelta ::
  "string \<times> real \<Rightarrow> (string, BuildingDamage) jsmap \<times> (string, Node) jsmap
     \<Rightarrow> (string, BuildingDamage) jsmap \<times> (string, Node) jsmap" where
  "applyDelta (nodeId, addedDamage) (newDamages, newNodes) =
     (case map_of newDamages nodeId of
        None \<Rightarrow> (newDamages, newNodes)
      | Some current \<Rightarrow>
          (let newTotal = min 100 (baseScore current + earthquakeDamage current + addedDamage);
               newDamages' = AList.update nodeId
                 (current\<lparr>earthquakeDamage := earthquakeDamage current + addedDamage,
                          totalScore := newTotal\<rparr>) newDamages
           in case map_of newNodes nodeId of
                None \<Rightarrow> (newDamages', newNodes)
              | Some node \<Rightarrow>
                  if status node \<noteq> collapse_inferred
                  then (newDamages',
                        AList.update nodeId (node\<lparr>status := getStatusFromScore newTotal\<rparr>) newNodes)
                  else (newDamages', newNodes)))"

definition applyEarthquakeDamage :: "(string, real) jsmap \<Rightarrow> SeismosState \<Rightarrow> SeismosState" where
  "applyEarthquakeDamage damages state =
     (let (newDamages, newNodes) = fold applyDelta damages (buildingDamages state, nodes state)
      in state\<lparr>buildingDamages := newDamages, nodes := newNodes\<rparr>)"

definition allScores :: "SeismosState \<Rightarrow> (string, real) jsmap" where
  "allScores state = map (\<lambda>(k, d). (k, totalScore d)) (buildingDamages state)"

subsection \<open>resetToSafe\<close>

fun resetStep ::
  "(nat \<Rightarrow> real) \<Rightarrow> nat \<times> string \<times> Node
     \<Rightarrow> (string, BuildingDamage) jsmap \<times> (string, Node) jsmap
     \<Rightarrow> (string, BuildingDamage) jsmap \<times> (string, Node) jsmap" where
  "resetStep rnd (index, nodeId, node) (newDamages, newNodes) =
     (let b = drawBaseScore index (rnd index)
      in (AList.update nodeId (freshDamage b) newDamages,
          AList.update nodeId (node\<lparr>status := getStatusFromScore b\<rparr>) newNodes))"

definition resetToSafe :: "(nat \<Rightarrow> real) \<Rightarrow> int \<Rightarrow> SeismosState \<Rightarrow> SeismosState" where
  "resetToSafe rnd now state =
     (let (newDamages, newNodes) = fold (resetStep rnd) (enumerate 0 (nodes state)) ([], nodes state)
      in state\<lparr> nodes := newNodes,
                buildingDamages := newDamages,
                isEarthquakeActive := False,
                earthquakeProgress := 0,
                buildingSummary := summaryOfDamages newDamages,
                lastHeartbeat := newMap (map (\<lambda>k. (k, now)) (map fst (nodes state))),
                consensusEvidence := [] \<rparr>)"

subsection \<open>checkConsensus (INSD)\<close>

definition SILENCE_THRESHOLD :: int where
  "SILENCE_THRESHOLD = 1000"

definition NEIGHBOR_RADIUS :: real where
  "NEIGHBOR_RADIUS = 0.0015"

text \<open>\<^verbatim>\<open>lastHeartbeat.get(nodeId) || 0\<close>: a missing entry (and the entry 0) reads as 0.\<close>

definition lastSeenOf :: "(string, int) jsmap \<Rightarrow> string \<Rightarrow> int" where
  "lastSeenOf hb nodeId = (case map_of hb nodeId of None \<Rightarrow> 0 | Some t \<Rightarrow> t)"

text \<open>The ids whose last heartbeat is younger than the silence threshold.\<close>

definition activeNodeIds :: "(string, int) jsmap \<Rightarrow> int \<Rightarrow> string list" where
  "activeNodeIds hb now = map fst (filter (\<lambda>(k, time). now - time < SILENCE_THRESHOLD) hb)"

definition nodeDistance :: "Node \<Rightarrow> Node \<Rightarrow> real" where
  "nodeDistance node neighbor = sqrt ((lat node - lat neighbor)\<^sup>2 + (lng node - lng neighbor)\<^sup>2)"

text \<open>
  The inner \<^verbatim>\<open>nodes.forEach\<close>: the ids of the other nodes that are active and closer
  than the radius, in the order of the node map.
\<close>

definition findWitnesses :: "(string, Node) jsmap \<Rightarrow> string list \<Rightarrow> string \<Rightarrow> Node \<Rightarrow> string list" where
  "findWitnesses ns active nodeId node =
     map fst (filter (\<lambda>(neighborId, neighbor).
        nodeId \<noteq> neighborId \<and> neighborId \<in> set active
          \<and> nodeDistance node neighbor < NEIGHBOR_RADIUS) ns)"

text \<open>
  One iteration of the outer \<^verbatim>\<open>nodes.forEach\<close>, on the accumulators
  \<open>(newNodes, newEvidence, hasChanges)\<close>. The loop reads the node, the heartbeats and
  the damage records of the state it started from.
\<close>

fun consensusStep ::
  "SeismosState \<Rightarrow> int \<Rightarrow> string list \<Rightarrow> string \<times> Node
     \<Rightarrow> (string, Node) jsmap \<times> (string, string list) jsmap \<times> bool
     \<Rightarrow> (string, Node) jsmap \<times> (string, string list) jsmap \<times> bool" where
  "consensusStep state now active (nodeId, node) (newNodes, newEvidence, hasChanges) =
     (let lastSeen = lastSeenOf (lastHeartbeat state) nodeId;
          isSilent = (now - lastSeen > SILENCE_THRESHOLD)
      in if isSilent \<and> status node \<noteq> collapse \<and> status node \<noteq> collapse_inferred then
           (if isEarthquakeActive state then
              (let witnesses = findWitnesses (nodes state) active nodeId node
               in if length witnesses \<ge> 3
                  then (AList.update nodeId (node\<lparr>status := collapse_inferred\<rparr>) newNodes,
                        AList.update nodeId witnesses newEvidence, True)
                  else (newNodes, newEvidence, hasChanges))
            else (newNodes, newEvidence, hasChanges))
         else if \<not> isSilent \<and> status node = collapse_inferred then
           (case map_of (buildingDamages state) nodeId of
              None \<Rightarrow> (newNodes, newEvidence, hasChanges)
            | Some damage \<Rightarrow>
                (AList.update nodeId (node\<lparr>status := getStatusFromScore (totalScore damage)\<rparr>) newNodes,
                 AList.delete nodeId newEvidence, True))
         else (newNodes, newEvidence, hasChanges))"

definition checkConsensus :: "int \<Rightarrow> SeismosState \<Rightarrow> SeismosState" where
  "checkConsensus now state =
     (let active = activeNodeIds (lastHeartbeat state) now;
          (newNodes, newEvidence, hasChanges) =
             fold (consensusStep state now active) (nodes state)
               (nodes state, consensusEvidence state, False)
      in if hasChanges
         then updateBuildingSummary (state\<lparr>nodes := newNodes, consensusEvidence := newEvidence\<rparr>)
         else state)"

subsection \<open>Runs of the store\<close>

text \<open>
  The actions of the store, with the values the environment supplies (the clock, the
  random draws) as arguments; a run applies a list of actions to the initial state.
\<close>

datatype Action =
    SetNodes "Node list" "nat \<Rightarrow> real" int
  | SelectNode "string option"
  | SetEarthquakeActive bool
  | SetEarthquakeProgress real
  | UpdateHeartbeat "string list" int
  | CheckConsensus int
  | ApplyEarthquakeDamage "(string, real) jsmap"
  | UpdateBuildingSummary
  | ResetToSafe "nat \<Rightarrow> real" int

fun exec :: "Action \<Rightarrow> SeismosState \<Rightarrow> SeismosState" where
  "exec (SetNodes ns rnd now) s = setNodes ns rnd now s"
| "exec (SelectNode k) s = selectNode k s"
| "exec (SetEarthquakeActive b) s = setEarthquakeActive b s"
| "exec (SetEarthquakeProgress p) s = setEarthquakeProgress p s"
| "exec (UpdateHeartbeat ks now) s = updateHeartbeat ks now s"
| "exec (CheckConsensus now) s = checkConsensus now s"
| "exec (ApplyEarthquakeDamage damages) s = applyEarthquakeDamage damages s"
| "exec UpdateBuildingSummary s = updateBuildingSummary s"
| "exec (ResetToSafe rnd now) s = resetToSafe rnd now s"

definition run :: "Action list \<Rightarrow> SeismosState" where
  "run acts = fold exec acts initialState"

text \<open>
  What the environment guarantees of the values it supplies: a draw of
  \<^verbatim>\<open>Math.random()\<close> lies in \<open>[0, 1)\<close>, and a damage delta, which the earthquake
  engine computes as a rounded product of non-negative factors capped at 100, is not
  negative.
\<close>

definition unitDraws :: "(nat \<Rightarrow> real) \<Rightarrow> nat \<Rightarrow> bool" where
  "unitDraws rnd n = (\<forall>i < n. 0 \<le> rnd i \<and> rnd i < 1)"

fun admissible :: "SeismosState \<Rightarrow> Action \<Rightarrow> bool" where
  "admissible s (SetNodes ns rnd now) = unitDraws rnd (length ns)"
| "admissible s (ResetToSafe rnd now) = unitDraws rnd (length (nodes s))"
| "admissible s (ApplyEarthquakeDamage damages) = (\<forall>(k, v) \<in> set damages. 0 \<le> v)"
| "admissible s _ = True"

fun admissibleRun :: "SeismosState \<Rightarrow> Action list \<Rightarrow> bool" where
  "admissibleRun s [] = True"
| "admissibleRun s (a # acts) = (admissible s a \<and> admissibleRun (exec a s) acts)"

section \<open>Reading synthesizer and earthquake engine (the simulator)\<close>

datatype StructureType = betonarme | yigma | celik | ahsap

record BuildingMetadata =
  floors :: int
  yearBuilt :: int
  structureType :: StructureType
  lastInspection :: string
  sensorId :: string

text \<open>An element of \<^verbatim>\<open>DEMO_NODES\<close>: a node with its metadata.\<close>

record DemoNode = Node +
  metadata :: BuildingMetadata

datatype SignalType = idle | seismic | noise | anomaly_signal

record SensorReading =
  timestamp :: int
  accelX :: real
  accelY :: real
  accelZ :: real
  magnitude :: real
  frequency :: real
  fftSpectrum :: "real list"
  signalType :: SignalType

record EarthquakeConfig =
  intensity :: real
  durationMs :: real
  epicenterLat :: real
  epicenterLng :: real

text \<open>
  The closure of the interval callback that \<^verbatim>\<open>triggerEarthquake\<close> registers: the
  values it captured and its tick counter.
\<close>

record EarthquakeLoop =
  loopConfig :: EarthquakeConfig
  loopTotalScores :: "(string, real) jsmap"
  damageResults :: "(string, real) jsmap"
  tickCount :: nat
  totalTicks :: real

datatype TimerTask = IdleTick | EarthquakeTick EarthquakeLoop

text \<open>
  The fields of \<^verbatim>\<open>EarthquakeSimulator\<close>, and the timer table of the runtime:
  \<^verbatim>\<open>setInterval\<close> enters a task under a fresh handle and returns the handle. The
  registered listeners are left out.
\<close>

record Simulator =
  liveReadings :: "(string, SensorReading) jsmap"
  earthquakeInterval :: "nat option"
  idleInterval :: "nat option"
  deadNodes :: "string list"
  currentDamages :: "(string, real) jsmap"
  intervals :: "(nat, TimerTask) jsmap"
  nextHandle :: nat

definition updateDamages :: "(string, real) jsmap \<Rightarrow> Simulator \<Rightarrow> Simulator" where
  "updateDamages damages sim = sim\<lparr>currentDamages := damages\<rparr>"

text \<open>\<open>rnd i\<close> is the draw made for bin \<open>i\<close>.\<close>

definition generateFFTSpectrum :: "(nat \<Rightarrow> real) \<Rightarrow> real \<Rightarrow> real \<Rightarrow> real \<Rightarrow> real list" where
  "generateFFTSpectrum rnd peakHz spread amplitude =
     map (\<lambda>i. let hz = real i * 0.5;
                  distance = \<bar>hz - peakHz\<bar>;
                  v = amplitude * exp (- ((distance * distance) / (2 * spread * spread)))
              in max 0 (v + (rnd i - 0.5) * 0.05))
       [0..<20]"

text \<open>\<^verbatim>\<open>this.currentDamages.get(nodeId) || 0\<close>\<close>

definition damageOf :: "Simulator \<Rightarrow> string \<Rightarrow> real" where
  "damageOf sim nodeId = (case map_of (currentDamages sim) nodeId of None \<Rightarrow> 0 | Some d \<Rightarrow> d)"

definition baseFrequencyOf :: "real \<Rightarrow> real" where
  "baseFrequencyOf damage = (let healthFactor = max 0 (1 - damage / 100) in 1.0 + 3.5 * healthFactor)"

text \<open>
  The draws in the order of the calls: \<open>rnd 0\<close>, \<open>rnd 1\<close>, \<open>rnd 2\<close> for the three axes,
  \<open>rnd 3\<close> to \<open>rnd 22\<close> for the spectrum, \<open>rnd 23\<close> for the frequency.
\<close>

definition generateIdleReading :: "Simulator \<Rightarrow> int \<Rightarrow> (nat \<Rightarrow> real) \<Rightarrow> string \<Rightarrow> SensorReading" where
  "generateIdleReading sim now rnd nodeId =
     (let damage = damageOf sim nodeId;
          baseFrequency = baseFrequencyOf damage;
          noise = 0.003;
          ax = (rnd 0 - 0.5) * noise;
          ay = (rnd 1 - 0.5) * noise;
          az = (rnd 2 - 0.5) * noise;
          spectrum = generateFFTSpectrum (\<lambda>i. rnd (3 + i)) baseFrequency 0.8 0.3
      in \<lparr> timestamp = now, accelX = ax, accelY = ay, accelZ = az,
           magnitude = sqrt (ax\<^sup>2 + ay\<^sup>2 + az\<^sup>2),
           frequency = baseFrequency + rnd 23 * 0.2,
           fftSpectrum = spectrum,
           signalType = idle \<rparr>)"

text \<open>\<^verbatim>\<open>getReading\<close>: \<open>None\<close> is the \<^verbatim>\<open>null\<close> returned for a silenced sensor.\<close>

definition getReading :: "Simulator \<Rightarrow> int \<Rightarrow> (nat \<Rightarrow> real) \<Rightarrow> string \<Rightarrow> SensorReading option" where
  "getReading sim now rnd nodeId =
     (if nodeId \<in> set (deadNodes sim) then None
      else case map_of (liveReadings sim) nodeId of
             Some r \<Rightarrow> Some r
           | None \<Rightarrow> Some (generateIdleReading sim now rnd nodeId))"

text \<open>\<^verbatim>\<open>Math.round\<close> rounds to the nearest integer, a half upwards.\<close>

definition mathRound :: "real \<Rightarrow> real" where
  "mathRound x = of_int \<lfloor>x + 1 / 2\<rfloor>"

text \<open>
  The damage line of \<^verbatim>\<open>triggerEarthquake\<close> in the arithmetic \<open>a\<close>: the vulnerability
  of a building, its distance factor, the product
  \<^verbatim>\<open>config.intensity * 25 * distanceFactor * vulnerabilityFactor * (0.5 + Math.random() * 0.5)\<close>
  (evaluated from the left), the delta \<^verbatim>\<open>Math.min(100, Math.round(...))\<close> and the map
  of the deltas. \<open>r\<close> is the draw of \<^verbatim>\<open>Math.random()\<close> made for the node, \<open>rnd i\<close>
  the draw for the building at index \<open>i\<close>.
\<close>

definition vulnerabilityIn :: "Arith \<Rightarrow> BuildingMetadata \<Rightarrow> real" where
  "vulnerabilityIn a meta =
     (let v0 = 1.0;
          v1 = (if structureType meta = yigma then fl a 1.4 else v0);
          v2 = (if structureType meta = ahsap then fl a 1.6 else v1);
          v3 = (if yearBuilt meta < 1980 then fl a (v2 * fl a 1.3) else v2);
          v4 = (if floors meta > 4 then fl a (v3 * fl a 1.2) else v3)
      in v4)"

definition damageDistanceFactorIn :: "Arith \<Rightarrow> EarthquakeConfig \<Rightarrow> DemoNode \<Rightarrow> real" where
  "damageDistanceFactorIn a config node =
     (let distLat = fl a (lat node - epicenterLat config);
          distLng = fl a (lng node - epicenterLng config);
          distance = msqrt a (fl a (pow2 a distLat + pow2 a distLng))
      in max (fl a 0.2) (fl a (1 - fl a (distance * 50))))"

definition rawDamageIn :: "Arith \<Rightarrow> EarthquakeConfig \<Rightarrow> DemoNode \<Rightarrow> real \<Rightarrow> real" where
  "rawDamageIn a config node r =
     fl a (fl a (fl a (fl a (intensity config * 25) * damageDistanceFactorIn a config node)
                  * vulnerabilityIn a (metadata node))
            * fl a (0.5 + fl a (r * 0.5)))"

definition nodeDamageIn :: "Arith \<Rightarrow> EarthquakeConfig \<Rightarrow> DemoNode \<Rightarrow> real \<Rightarrow> real" where
  "nodeDamageIn a config node r =
     (let damage = mathRound (rawDamageIn a config node r) in min 100 damage)"

definition computeDamageResultsIn ::
  "Arith \<Rightarrow> EarthquakeConfig \<Rightarrow> DemoNode list \<Rightarrow> (nat \<Rightarrow> real) \<Rightarrow> (string, real) jsmap" where
  "computeDamageResultsIn a config population rnd =
     fold (\<lambda>(i, node) m. AList.update (node_id node) (nodeDamageIn a config node (rnd i)) m)
       (enumerate 0 population) []"

text \<open>
  The same line in exact arithmetic (the instance at \<^const>\<open>exactArith\<close>, see
  \<open>computeDamageResultsIn_exact\<close>), which the runs of the simulator below are evaluated
  with.
\<close>

definition vulnerabilityOf :: "BuildingMetadata \<Rightarrow> real" where
  "vulnerabilityOf meta =
     (let v0 = 1.0;
          v1 = (if structureType meta = yigma then 1.4 else v0);
          v2 = (if structureType meta = ahsap then 1.6 else v1);
          v3 = (if yearBuilt meta < 1980 then v2 * 1.3 else v2);
          v4 = (if floors meta > 4 then v3 * 1.2 else v3)
      in v4)"

definition damageDistanceFactor :: "EarthquakeConfig \<Rightarrow> DemoNode \<Rightarrow> real" where
  "damageDistanceFactor config node =
     (let distLat = lat node - epicenterLat config;
          distLng = lng node - epicenterLng config;
          distance = sqrt (distLat\<^sup>2 + distLng\<^sup>2)
      in max 0.2 (1 - distance * 50))"

definition rawDamage :: "EarthquakeConfig \<Rightarrow> DemoNode \<Rightarrow> real \<Rightarrow> real" where
  "rawDamage config node r =
     intensity config * 25 * damageDistanceFactor config node * vulnerabilityOf (metadata node)
       * (0.5 + r * 0.5)"

definition nodeDamage :: "EarthquakeConfig \<Rightarrow> DemoNode \<Rightarrow> real \<Rightarrow> real" where
  "nodeDamage config node r = (let damage = mathRound (rawDamage config node r) in min 100 damage)"

definition computeDamageResults ::
  "EarthquakeConfig \<Rightarrow> DemoNode list \<Rightarrow> (nat \<Rightarrow> real) \<Rightarrow> (string, real) jsmap" where
  "computeDamageResults config population rnd =
     fold (\<lambda>(i, node) m. AList.update (node_id node) (nodeDamage config node (rnd i)) m)
       (enumerate 0 population) []"

text \<open>
  The synchronous part of \<^verbatim>\<open>triggerEarthquake\<close>: the damage map is computed for the
  whole population, the tick callback is registered with \<^verbatim>\<open>setInterval\<close>, and its
  handle is stored in \<^verbatim>\<open>earthquakeInterval\<close>. The method tests nothing before it does
  so. \<open>rnd i\<close> is the draw for the building at index \<open>i\<close>. First in exact arithmetic.
\<close>

definition triggerEarthquake ::
  "DemoNode list \<Rightarrow> EarthquakeConfig \<Rightarrow> (string, real) jsmap \<Rightarrow> (nat \<Rightarrow> real) \<Rightarrow> Simulator \<Rightarrow> Simulator" where
  "triggerEarthquake population config currentTotalScores rnd sim =
     (let results = computeDamageResults config population rnd;
          task = EarthquakeTick \<lparr> loopConfig = config, loopTotalScores = currentTotalScores,
                                  damageResults = results, tickCount = 0,
                                  totalTicks = durationMs config / 50 \<rparr>;
          handle = nextHandle sim
      in sim\<lparr> earthquakeInterval := Some handle,
              intervals := AList.update handle task (intervals sim),
              nextHandle := handle + 1 \<rparr>)"

text \<open>
  The same with the arithmetic of the program: the map is the one that
  \<^const>\<open>computeDamageResultsIn\<close> computes, and \<^verbatim>\<open>config.durationMs / 50\<close> is rounded.
\<close>

definition triggerEarthquakeIn ::
  "Arith \<Rightarrow> DemoNode list \<Rightarrow> EarthquakeConfig \<Rightarrow> (string, real) jsmap \<Rightarrow> (nat \<Rightarrow> real)
     \<Rightarrow> Simulator \<Rightarrow> Simulator" where
  "triggerEarthquakeIn a population config currentTotalScores rnd sim =
     (let results = computeDamageResultsIn a config population rnd;
          task = EarthquakeTick \<lparr> loopConfig = config, loopTotalScores = currentTotalScores,
                                  damageResults = results, tickCount = 0,
                                  totalTicks = fl a (durationMs config / 50) \<rparr>;
          handle = nextHandle sim
      in sim\<lparr> earthquakeInterval := Some handle,
              intervals := AList.update handle task (intervals sim),
              nextHandle := handle + 1 \<rparr>)"

subsection \<open>The dashboard's trigger handler\<close>

text \<open>
  The store, the simulator and the panel's \<^verbatim>\<open>canReset\<close> flag. The handler is a
  closure of one render of the panel: the \<^verbatim>\<open>isEarthquakeActive\<close> it tests and the
  \<^verbatim>\<open>buildingDamages\<close> it reads are the values that render took from the store, the
  state \<open>rendered\<close>, which is the current store only if the panel has rendered again
  since the last change. The actions it calls work on the current store. \<open>rEpicenter\<close>
  and \<open>rIntensity\<close> are its own two draws; indexing an empty population would raise a
  \<^verbatim>\<open>TypeError\<close>.
\<close>

record Dashboard =
  store :: SeismosState
  simulator :: Simulator
  canReset :: bool

datatype error = TypeError

definition handleTriggerEarthquake ::
  "Arith \<Rightarrow> DemoNode list \<Rightarrow> SeismosState \<Rightarrow> real \<Rightarrow> real \<Rightarrow> (nat \<Rightarrow> real) \<Rightarrow> Dashboard
     \<Rightarrow> error + Dashboard" where
  "handleTriggerEarthquake a population rendered rEpicenter rIntensity rnd w =
     (if isEarthquakeActive rendered then Inr w
      else
        (let st = setEarthquakeActive True (store w);
             currentScores = fold (\<lambda>(k, dmg) m. AList.update k (totalScore dmg) m)
                               (buildingDamages rendered) [];
             ix = \<lfloor>fl a (rEpicenter * real (length population))\<rfloor>
         in if 0 \<le> ix \<and> ix < int (length population) then
              (let epicenter = population ! nat ix;
                   config = \<lparr> intensity = fl a (1.5 + fl a (rIntensity * 0.5)), durationMs = 5000,
                              epicenterLat = lat epicenter, epicenterLng = lng epicenter \<rparr>
               in Inr (w\<lparr> store := st, canReset := False,
                          simulator := triggerEarthquakeIn a population config currentScores rnd
                                         (simulator w) \<rparr>))
            else Inl TypeError))"

section \<open>Baseline and fatigue tracker\<close>

record NodeBaseline =
  frequencyHistory :: "real list"
  baselineFrequency :: "real option"
  isBaselineSet :: bool

text \<open>
  The indicator's field \<^verbatim>\<open>baselineFrequency\<close> is named \<open>indicatorBaseline\<close> here, as the
  name is taken by the field of \<open>NodeBaseline\<close>.
\<close>

record FatigueIndicator =
  hasWarning :: bool
  trendSlope :: real
  indicatorBaseline :: real
  currentFrequency :: real
  deviationPercent :: real
  sampleCount :: nat
  trendConfidence :: real

record Regression =
  slope :: real
  rSquared :: real

definition baselineWindowSize :: nat where "baselineWindowSize = 20"
definition historyWindowSize :: nat where "historyWindowSize = 50"
definition minSamplesForFatigue :: nat where "minSamplesForFatigue = 30"

text \<open>The two thresholds are the doubles that the literals \<^verbatim>\<open>-0.005\<close> and \<^verbatim>\<open>0.3\<close> denote.\<close>

definition fatigueThresholdSlope :: "Arith \<Rightarrow> real" where
  "fatigueThresholdSlope a = - fl a 0.005"

definition minTrendConfidence :: "Arith \<Rightarrow> real" where
  "minTrendConfidence a = fl a 0.3"

text \<open>
  A sum that a \<^verbatim>\<open>for\<close> accumulates with \<^verbatim>\<open>+=\<close> from 0 over the samples with their
  indices: each addition is rounded.
\<close>

definition accumulate :: "Arith \<Rightarrow> (nat \<times> real \<Rightarrow> real) \<Rightarrow> (nat \<times> real) list \<Rightarrow> real" where
  "accumulate a f ixs = fold (\<lambda>p s. fl a (s + f p)) ixs 0"

text \<open>
  \<^verbatim>\<open>linearRegression\<close>, operation by operation. The indices and the length are
  integers and exact. (The source also accumulates \<^verbatim>\<open>sumY2\<close>, which it never reads.)
\<close>

definition linearRegression :: "Arith \<Rightarrow> real list \<Rightarrow> Regression" where
  "linearRegression a vals =
     (let n = length vals in
      if n < 2 then \<lparr> slope = 0, rSquared = 0 \<rparr>
      else
        (let ixs = enumerate 0 vals;
             sumX = accumulate a (\<lambda>(i, y). real i) ixs;
             sumY = accumulate a (\<lambda>(i, y). y) ixs;
             sumXY = accumulate a (\<lambda>(i, y). fl a (real i * y)) ixs;
             sumX2 = accumulate a (\<lambda>(i, y). fl a (real i * real i)) ixs;
             meanX = fl a (sumX / real n);
             meanY = fl a (sumY / real n);
             numerator = fl a (sumXY - fl a (fl a (real n * meanX) * meanY));
             denominator = fl a (sumX2 - fl a (fl a (real n * meanX) * meanX))
         in if denominator = 0 then \<lparr> slope = 0, rSquared = 0 \<rparr>
            else
              (let sl = fl a (numerator / denominator);
                   intercept = fl a (meanY - fl a (sl * meanX));
                   ssRes = accumulate a
                     (\<lambda>(i, y). pow2 a (fl a (y - fl a (fl a (sl * real i) + intercept)))) ixs;
                   ssTot = accumulate a (\<lambda>(i, y). pow2 a (fl a (y - meanY))) ixs;
                   r2 = (if ssTot > 0 then fl a (1 - fl a (ssRes / ssTot)) else 0)
               in \<lparr> slope = sl, rSquared = max 0 r2 \<rparr>)))"

definition calculateFatigueIndicator ::
  "Arith \<Rightarrow> string \<Rightarrow> NodeBaseline \<Rightarrow> real \<Rightarrow> FatigueIndicator" where
  "calculateFatigueIndicator a nodeId baseline current =
     (let count = length (frequencyHistory baseline);
          baselineFreq = (case baselineFrequency baseline of None \<Rightarrow> current | Some f \<Rightarrow> f);
          deviation = (if baselineFreq > 0
                       then fl a (fl a (fl a (baselineFreq - current) / baselineFreq) * 100)
                       else 0)
      in if count < minSamplesForFatigue then
           \<lparr> hasWarning = False, trendSlope = 0, indicatorBaseline = baselineFreq,
             currentFrequency = current, deviationPercent = deviation,
             sampleCount = count, trendConfidence = 0 \<rparr>
         else
           (let reg = linearRegression a (frequencyHistory baseline);
                warn = (slope reg < fatigueThresholdSlope a \<and> rSquared reg > minTrendConfidence a)
            in \<lparr> hasWarning = warn, trendSlope = slope reg, indicatorBaseline = baselineFreq,
                 currentFrequency = current, deviationPercent = deviation,
                 sampleCount = count, trendConfidence = rSquared reg \<rparr>))"

text \<open>
  \<^verbatim>\<open>calculateMedian\<close> is applied to the first 20 samples only. On an empty array the
  source yields NaN; the model returns \<open>None\<close> there.
\<close>

definition calculateMedian :: "Arith \<Rightarrow> real list \<Rightarrow> real option" where
  "calculateMedian a vals =
     (let sorted_vals = sort vals; mid = length sorted_vals div 2
      in if sorted_vals = [] then None
         else if length sorted_vals mod 2 \<noteq> 0 then Some (sorted_vals ! mid)
         else Some (fl a (fl a (sorted_vals ! (mid - 1) + sorted_vals ! mid) / 2)))"

text \<open>\<^verbatim>\<open>while (history.length > 50) history.shift()\<close>\<close>

definition trimHistory :: "real list \<Rightarrow> real list" where
  "trimHistory h = drop (length h - historyWindowSize) h"

record BaselineTracker =
  nodeBaselines :: "(string, NodeBaseline) jsmap"

definition update_tracker ::
  "Arith \<Rightarrow> string \<Rightarrow> real \<Rightarrow> BaselineTracker \<Rightarrow> FatigueIndicator \<times> BaselineTracker" where
  "update_tracker a nodeId freq tracker =
     (let b0 = (case map_of (nodeBaselines tracker) nodeId of
                  None \<Rightarrow> \<lparr> frequencyHistory = [], baselineFrequency = None, isBaselineSet = False \<rparr>
                | Some b \<Rightarrow> b);
          b1 = b0\<lparr>frequencyHistory := trimHistory (frequencyHistory b0 @ [freq])\<rparr>;
          b2 = (if \<not> isBaselineSet b1 \<and> length (frequencyHistory b1) \<ge> baselineWindowSize
                then b1\<lparr>baselineFrequency :=
                           calculateMedian a (take baselineWindowSize (frequencyHistory b1)),
                        isBaselineSet := True\<rparr>
                else b1)
      in (calculateFatigueIndicator a nodeId b2 freq,
          tracker\<lparr>nodeBaselines := AList.update nodeId b2 (nodeBaselines tracker)\<rparr>))"

text \<open>\<^verbatim>\<open>baseline?.baselineFrequency ?? 5.0\<close>\<close>

definition getBaseline :: "BaselineTracker \<Rightarrow> string \<Rightarrow> real" where
  "getBaseline tracker nodeId =
     (case map_of (nodeBaselines tracker) nodeId of
        None \<Rightarrow> 5.0
      | Some baseline \<Rightarrow> (case baselineFrequency baseline of None \<Rightarrow> 5.0 | Some f \<Rightarrow> f))"


section \<open>Invariants\<close>

text \<open>
  A damage record is well scored when its base score and its accumulated earthquake
  damage are not negative and its total is their sum capped at 100.
\<close>

definition wellScored :: "BuildingDamage \<Rightarrow> bool" where
  "wellScored d = (0 \<le> baseScore d \<and> 0 \<le> earthquakeDamage d
     \<and> totalScore d = min 100 (baseScore d + earthquakeDamage d))"

definition ledgerOk :: "(string, BuildingDamage) jsmap \<Rightarrow> bool" where
  "ledgerOk dm = (\<forall>k d. map_of dm k = Some d \<longrightarrow> wellScored d)"

text \<open>
  The status of every node that has a damage record is \<^const>\<open>collapse_inferred\<close> or the
  status of its total score; the node map and the damage map hold the same ids.
\<close>

definition statusOk :: "(string, BuildingDamage) jsmap \<Rightarrow> (string, Node) jsmap \<Rightarrow> bool" where
  "statusOk dm nm = (\<forall>k n d. map_of nm k = Some n \<longrightarrow> map_of dm k = Some d \<longrightarrow>
       status n = collapse_inferred \<or> status n = getStatusFromScore (totalScore d))"

definition sameKeys :: "(string, BuildingDamage) jsmap \<Rightarrow> (string, Node) jsmap \<Rightarrow> bool" where
  "sameKeys dm nm = (fst ` set nm = fst ` set dm)"

text \<open>
  A state is well formed when its node map and its heartbeat map have no id twice (they
  are \<^verbatim>\<open>Map\<close>s) and every node has a damage record.
\<close>

definition wellFormed :: "SeismosState \<Rightarrow> bool" where
  "wellFormed s =
     (distinct (map fst (nodes s)) \<and> distinct (map fst (lastHeartbeat s))
        \<and> sameKeys (buildingDamages s) (nodes s))"

text \<open>
  The two branches of \<^const>\<open>consensusStep\<close> that change a node, as conditions on the
  state the check starts from: the node is silent, neither collapsed nor inferred, an
  earthquake is active and at least three witnesses are found; or the node is inferred,
  not silent, and has a damage record.
\<close>

definition isSilentAt :: "SeismosState \<Rightarrow> int \<Rightarrow> string \<Rightarrow> bool" where
  "isSilentAt s now k = (now - lastSeenOf (lastHeartbeat s) k > SILENCE_THRESHOLD)"

definition witnessesAt :: "SeismosState \<Rightarrow> int \<Rightarrow> string \<Rightarrow> Node \<Rightarrow> string list" where
  "witnessesAt s now k n = findWitnesses (nodes s) (activeNodeIds (lastHeartbeat s) now) k n"

definition infersCollapse :: "SeismosState \<Rightarrow> int \<Rightarrow> string \<Rightarrow> Node \<Rightarrow> bool" where
  "infersCollapse s now k n =
     (isSilentAt s now k \<and> status n \<noteq> collapse \<and> status n \<noteq> collapse_inferred
        \<and> isEarthquakeActive s \<and> length (witnessesAt s now k n) \<ge> 3)"

definition restoresStatus :: "SeismosState \<Rightarrow> int \<Rightarrow> string \<Rightarrow> Node \<Rightarrow> bool" where
  "restoresStatus s now k n =
     (\<not> isSilentAt s now k \<and> status n = collapse_inferred
        \<and> map_of (buildingDamages s) k \<noteq> None)"

text \<open>The step of the check with the active ids of the state it starts from.\<close>

abbreviation (input) cstep :: "SeismosState \<Rightarrow> int \<Rightarrow> string \<times> Node
     \<Rightarrow> (string, Node) jsmap \<times> (string, string list) jsmap \<times> bool
     \<Rightarrow> (string, Node) jsmap \<times> (string, string list) jsmap \<times> bool" where
  "cstep s now \<equiv> consensusStep s now (activeNodeIds (lastHeartbeat s) now)"

text \<open>Initialisation and reset are the two actions that start the ledger afresh.\<close>

fun isReset :: "Action \<Rightarrow> bool" where
  "isReset (SetNodes ns rnd now) = True"
| "isReset (ResetToSafe rnd now) = True"
| "isReset _ = False"

section \<open>The damage line of an older revision\<close>

text \<open>
  The revision of the simulator kept in \<^verbatim>\<open>src/lib/simulator/index.ts\<close> computes the
  delta as \<^verbatim>\<open>Math.min(70, Math.round(config.intensity * 30 * distanceFactor * vulnerabilityFactor))\<close>
  with the distance factor \<^verbatim>\<open>Math.max(0.2, 1 - distance * 30)\<close> and the random
  vulnerability \<^verbatim>\<open>0.5 + Math.random() * 1.0\<close>: scale 30, decay 30, no metadata, no
  separate jitter, and a cap of 70.
\<close>

definition legacyDistanceFactorIn :: "Arith \<Rightarrow> EarthquakeConfig \<Rightarrow> Node \<Rightarrow> real" where
  "legacyDistanceFactorIn a config node =
     (let distLat = fl a (lat node - epicenterLat config);
          distLng = fl a (lng node - epicenterLng config);
          distance = msqrt a (fl a (pow2 a distLat + pow2 a distLng))
      in max (fl a 0.2) (fl a (1 - fl a (distance * 30))))"

definition legacyNodeDamageIn :: "Arith \<Rightarrow> EarthquakeConfig \<Rightarrow> Node \<Rightarrow> real \<Rightarrow> real" where
  "legacyNodeDamageIn a config node r =
     (let distanceFactor = legacyDistanceFactorIn a config node;
          vulnerabilityFactor = fl a (0.5 + fl a (r * 1.0));
          damage = mathRound (fl a (fl a (fl a (intensity config * 30) * distanceFactor)
                                     * vulnerabilityFactor))
      in min 70 damage)"

section \<open>The delta as the specification states it\<close>

text \<open>
  Section 4.2 of the specification: the rounded product, clamped to \<open>[0, 100]\<close>. This
  definition follows the specification, not the code.
\<close>

definition specDelta :: "real \<Rightarrow> real" where
  "specDelta product = max 0 (min 100 (mathRound product))"

section \<open>Example values\<close>

text \<open>A building, and a run that initialises the store with it and applies one delta.\<close>

definition nodeA :: Node where
  "nodeA = \<lparr> node_id = ''node-1'', name = ''Bina 1'', status = stable,
             lat = 41.03, lng = 28.945, is_physical = False \<rparr>"

definition demoRun :: "Action list" where
  "demoRun = [SetNodes [nodeA] (\<lambda>_. 1 / 2) 0, ApplyEarthquakeDamage [(''node-1'', 80)]]"

text \<open>
  Three more buildings within 0.00015 degrees of the first and a fifth one 0.0045
  degrees away, and a run in which an earthquake is active and all but the first
  building have reported at time 1500.
\<close>

definition nodeB :: Node where
  "nodeB = \<lparr> node_id = ''node-2'', name = ''Bina 2'', status = stable,
             lat = 41.0301, lng = 28.945, is_physical = False \<rparr>"

definition nodeC :: Node where
  "nodeC = \<lparr> node_id = ''node-3'', name = ''Bina 3'', status = stable,
             lat = 41.03, lng = 28.9451, is_physical = False \<rparr>"

definition nodeD :: Node where
  "nodeD = \<lparr> node_id = ''node-4'', name = ''Bina 4'', status = stable,
             lat = 41.0301, lng = 28.9451, is_physical = False \<rparr>"

definition nodeE :: Node where
  "nodeE = \<lparr> node_id = ''node-5'', name = ''Bina 5'', status = stable,
             lat = 41.028, lng = 28.949, is_physical = False \<rparr>"

definition insdRun :: "Action list" where
  "insdRun = [SetNodes [nodeA, nodeB, nodeC, nodeD, nodeE] (\<lambda>_. 1 / 2) 0,
              SetEarthquakeActive True,
              UpdateHeartbeat [''node-2'', ''node-3'', ''node-4'', ''node-5''] 1500]"

text \<open>The same run continued: the check at time 1600, then the first building reports again.\<close>

definition recoveryRun :: "Action list" where
  "recoveryRun = insdRun @ [CheckConsensus 1600, UpdateHeartbeat [''node-1''] 1700]"

text \<open>
  Two buildings with metadata (an old, tall timber building and a recent, low one of
  reinforced concrete 0.02 degrees to the east), and a config with its epicentre at the
  first.
\<close>

definition demoNode1 :: DemoNode where
  "demoNode1 = \<lparr> node_id = ''node-1'', name = ''Bina 1'', status = stable,
                 lat = 41.03, lng = 28.945, is_physical = False,
                 metadata = \<lparr> floors = 5, yearBuilt = 1975, structureType = ahsap,
                              lastInspection = ''2021-03-12'', sensorId = ''SEN-001'' \<rparr> \<rparr>"

definition demoNode2 :: DemoNode where
  "demoNode2 = \<lparr> node_id = ''node-2'', name = ''Bina 2'', status = stable,
                 lat = 41.03, lng = 28.965, is_physical = False,
                 metadata = \<lparr> floors = 2, yearBuilt = 2005, structureType = betonarme,
                              lastInspection = ''2022-05-20'', sensorId = ''SEN-002'' \<rparr> \<rparr>"

text \<open>A masonry building of 1970 with three floors, at the same place as \<open>demoNode1\<close>.\<close>

definition demoNode3 :: DemoNode where
  "demoNode3 = \<lparr> node_id = ''node-3'', name = ''Bina 3'', status = stable,
                 lat = 41.03, lng = 28.945, is_physical = False,
                 metadata = \<lparr> floors = 3, yearBuilt = 1970, structureType = yigma,
                              lastInspection = ''2020-11-02'', sensorId = ''SEN-003'' \<rparr> \<rparr>"

definition demoConfig :: EarthquakeConfig where
  "demoConfig = \<lparr> intensity = 2, durationMs = 5000, epicenterLat = 41.03, epicenterLng = 28.945 \<rparr>"

text \<open>
  An idle simulator; the simulator after one call of \<^const>\<open>triggerEarthquake\<close> (an event
  is in progress); a dashboard whose store has the event marked active; an idle simulator
  that was told the scores 100 and 40 of two buildings; and an empty tracker.
\<close>

definition idleSimulator :: Simulator where
  "idleSimulator = \<lparr> liveReadings = [], earthquakeInterval = None, idleInterval = None,
                      deadNodes = [], currentDamages = [], intervals = [], nextHandle = 0 \<rparr>"

definition busySimulator :: Simulator where
  "busySimulator = triggerEarthquake [demoNode1, demoNode2] demoConfig [] (\<lambda>_. 1 / 2) idleSimulator"

definition busyDashboard :: Dashboard where
  "busyDashboard = \<lparr> store = setEarthquakeActive True (run demoRun),
                      simulator = busySimulator, canReset = False \<rparr>"

definition damagedSimulator :: Simulator where
  "damagedSimulator = updateDamages [(''node-1'', 100), (''node-2'', 40)] idleSimulator"

definition emptyTracker :: BaselineTracker where
  "emptyTracker = \<lparr> nodeBaselines = [] \<rparr>"

text \<open>
  Two histories of 30 frequency samples: one alternating between 5 Hz and 1 Hz, one
  falling by 0.01 Hz per sample from 5 Hz.
\<close>

definition alternatingHistory :: "real list" where
  "alternatingHistory =
     [5, 1, 5, 1, 5, 1, 5, 1, 5, 1, 5, 1, 5, 1, 5, 1, 5, 1, 5, 1, 5, 1, 5, 1, 5, 1, 5, 1, 5, 1]"

definition fallingHistory :: "real list" where
  "fallingHistory = map (\<lambda>i. 5 - real i / 100) [0..<30]"

text \<open>
  A history of 30 samples falling by 0.005 Hz per sample from 5 Hz: the doubles
  \<^verbatim>\<open>5 - i * 0.005\<close>, and the exact values.
\<close>

definition slowHistory :: "real list" where
  "slowHistory =
     map (\<lambda>i. fl binary64 (5 - fl binary64 (real i * fl binary64 0.005))) [0..<30]"

definition slowHistoryExact :: "real list" where
  "slowHistoryExact = map (\<lambda>i. 5 - real i * 0.005) [0..<30]"


section \<open>The arithmetics\<close>

declare binexp.simps [simp del]

lemma binexp_below: "0 < x \<Longrightarrow> x < 1 \<Longrightarrow> binexp x = binexp (2 * x) - 1"
  by (subst binexp.simps) simp

lemma binexp_above: "2 \<le> x \<Longrightarrow> binexp x = binexp (x / 2) + 1"
  by (subst binexp.simps) simp

lemma binexp_unit: "1 \<le> x \<Longrightarrow> x < 2 \<Longrightarrow> binexp x = 0"
  by (subst binexp.simps) simp

lemma binary64_fl_zero: "binary64_fl 0 = 0"
  by (simp add: binary64_fl_def)

lemma binary64_fl_nonzero:
  "x \<noteq> 0 \<Longrightarrow> binary64_fl x =
     sgn x * of_int (roundTiesToEven (\<bar>x\<bar> / twoTo (max (binexp \<bar>x\<bar> - 52) (- 1074))))
       * twoTo (max (binexp \<bar>x\<bar> - 52) (- 1074))"
  by (simp add: binary64_fl_def Let_def)

lemma binary64_sel:
  "fl binary64 = binary64_fl" "pow2 binary64 x = binary64_fl (x * x)"
  "msqrt binary64 x = binary64_fl (sqrt x)"
  by (simp_all add: binary64_def)

lemma exactArith_sel:
  "fl exactArith x = x" "pow2 exactArith x = x\<^sup>2" "msqrt exactArith x = sqrt x"
  by (simp_all add: exactArith_def)

text \<open>The facts that evaluate \<^const>\<open>binary64\<close> on a rational number.\<close>

lemmas binary64_eval = binary64_sel binary64_fl_zero binary64_fl_nonzero binexp_below
  binexp_above binexp_unit twoTo_def roundTiesToEven_def Let_def

lemma twoTo_pos: "0 < twoTo k"
  by (simp add: twoTo_def)

lemma roundTiesToEven_nonneg: "0 \<le> x \<Longrightarrow> 0 \<le> roundTiesToEven x"
  by (simp add: roundTiesToEven_def Let_def)

text \<open>
  \<^const>\<open>binexp\<close> is the binary exponent, and \<^const>\<open>binary64_fl\<close> is off by at most half
  a unit of the last place.
\<close>

lemma twoTo_powi: "twoTo k = 2 powi k"
  by (simp add: twoTo_def power_int_def power_one_over)

lemma twoTo_Suc: "twoTo (k + 1) = 2 * twoTo k"
  by (simp add: twoTo_powi power_int_add)

lemma twoTo_pred: "twoTo (k - 1) = twoTo k / 2"
  using twoTo_Suc[of "k - 1"] by simp

lemma binexp_bounds: "0 < x \<Longrightarrow> twoTo (binexp x) \<le> x \<and> x < twoTo (binexp x + 1)"
proof (induction x rule: binexp.induct)
  case (1 x)
  show ?case
  proof (cases "x < 1")
    case True
    with 1 have ih: "twoTo (binexp (2 * x)) \<le> 2 * x \<and> 2 * x < twoTo (binexp (2 * x) + 1)"
      by simp
    have e: "binexp x = binexp (2 * x) - 1" using True 1(3) by (simp add: binexp_below)
    have "twoTo (binexp x) = twoTo (binexp (2 * x)) / 2" unfolding e by (rule twoTo_pred)
    moreover have "twoTo (binexp x + 1) = twoTo (binexp (2 * x) + 1) / 2"
      unfolding e using twoTo_pred[of "binexp (2 * x) + 1"] by simp
    ultimately show ?thesis using ih by simp
  next
    case False
    show ?thesis
    proof (cases "2 \<le> x")
      case True
      with 1 False
      have ih: "twoTo (binexp (x / 2)) \<le> x / 2 \<and> x / 2 < twoTo (binexp (x / 2) + 1)"
        by simp
      have e: "binexp x = binexp (x / 2) + 1" using True by (simp add: binexp_above)
      have "twoTo (binexp x) = 2 * twoTo (binexp (x / 2))" unfolding e by (rule twoTo_Suc)
      moreover have "twoTo (binexp x + 1) = 2 * twoTo (binexp (x / 2) + 1)"
        unfolding e by (rule twoTo_Suc)
      ultimately show ?thesis using ih by simp
    next
      case b: False
      with False have "binexp x = 0" by (simp add: binexp_unit)
      with False b show ?thesis by (simp add: twoTo_def)
    qed
  qed
qed

lemma roundTiesToEven_error: "\<bar>real_of_int (roundTiesToEven x) - x\<bar> \<le> 1 / 2"
  by (simp add: roundTiesToEven_def Let_def)

lemma binary64_fl_error:
  "\<bar>binary64_fl x - x\<bar> \<le> twoTo (max (binexp \<bar>x\<bar> - 52) (- 1074)) / 2"
proof (cases "x = 0")
  case True
  then show ?thesis using twoTo_pos[of "max (binexp \<bar>x\<bar> - 52) (- 1074)"]
    by (simp add: binary64_fl_zero)
next
  case False
  define u where "u = twoTo (max (binexp \<bar>x\<bar> - 52) (- 1074))"
  define n where "n = real_of_int (roundTiesToEven (\<bar>x\<bar> / u))"
  have u: "0 < u" unfolding u_def by (rule twoTo_pos)
  have "\<bar>n - \<bar>x\<bar> / u\<bar> \<le> 1 / 2"
    unfolding n_def by (rule roundTiesToEven_error)
  then have "\<bar>n - \<bar>x\<bar> / u\<bar> * u \<le> 1 / 2 * u"
    using u by (intro mult_right_mono) simp_all
  moreover have "\<bar>n - \<bar>x\<bar> / u\<bar> * u = \<bar>n * u - \<bar>x\<bar>\<bar>"
  proof -
    have "\<bar>n - \<bar>x\<bar> / u\<bar> * u = \<bar>(n - \<bar>x\<bar> / u) * u\<bar>"
      using u by (simp add: abs_mult)
    also have "(n - \<bar>x\<bar> / u) * u = n * u - \<bar>x\<bar>"
      using u by (simp add: left_diff_distrib)
    finally show ?thesis .
  qed
  moreover have f: "binary64_fl x = sgn x * n * u"
    using False unfolding n_def u_def by (rule binary64_fl_nonzero)
  have "\<bar>binary64_fl x - x\<bar> = \<bar>n * u - \<bar>x\<bar>\<bar>"
  proof (cases "0 < x")
    case True
    then show ?thesis unfolding f by simp
  next
    case n: False
    with False have neg: "x < 0" by simp
    then have "sgn x * n * u - x = - (n * u - \<bar>x\<bar>)" by simp
    then show ?thesis unfolding f by (simp only: abs_minus)
  qed
  ultimately show ?thesis unfolding u_def by simp
qed

text \<open>Both arithmetics keep the sign.\<close>

lemma keepsSign_exactArith: "keepsSign exactArith"
  by (simp add: keepsSign_def exactArith_def)

lemma keepsSign_binary64: "keepsSign binary64"
  unfolding keepsSign_def
proof (intro allI impI)
  fix x :: real assume x: "0 \<le> x"
  show "0 \<le> fl binary64 x"
  proof (cases "x = 0")
    case True
    then show ?thesis by (simp add: binary64_sel binary64_fl_zero)
  next
    case False
    let ?u = "twoTo (max (binexp \<bar>x\<bar> - 52) (- 1074))"
    have "0 \<le> \<bar>x\<bar> / ?u" using twoTo_pos[of "max (binexp \<bar>x\<bar> - 52) (- 1074)"] by simp
    from roundTiesToEven_nonneg[OF this]
    have "0 \<le> real_of_int (roundTiesToEven (\<bar>x\<bar> / ?u)) * ?u"
      using twoTo_pos[of "max (binexp \<bar>x\<bar> - 52) (- 1074)"] by simp
    with x False show ?thesis
      by (simp add: binary64_sel binary64_fl_nonzero)
  qed
qed

text \<open>The doubles that some literals of the program denote.\<close>

lemma binary64_literals:
  "fl binary64 1.4 = 6305039478318694 / 4503599627370496"
  "fl binary64 0.2 = 7205759403792794 / 36028797018963968"
  "fl binary64 0.005 = 5764607523034235 / 1152921504606846976"
  "fl binary64 (1 / 200) = 5764607523034235 / 1152921504606846976"
  "fl binary64 0.3 = 5404319552844595 / 18014398509481984"
  "fl binary64 25 = 25" "fl binary64 0.5 = 0.5"
  by (simp_all add: binary64_eval)


section \<open>Properties of the store\<close>

declare getStatusFromScore.simps [simp del]

lemmas store_eval = run_def initialState_def setNodes_def newMap_def assignBaseScores_def
  deriveStatuses_def drawBaseScore_def freshDamage_def summaryOfDamages_def countByScore_def
  applyEarthquakeDamage_def unitDraws_def Let_def nodeA_def demoRun_def
  getStatusFromScore.simps

subsection \<open>Association lists\<close>

lemma keys_update_present: "map_of al k = Some v \<Longrightarrow> fst ` set (AList.update k w al) = fst ` set al"
  by (auto simp: dom_update dest: map_of_SomeD intro: rev_image_eqI)

lemma in_keys_iff: "k \<in> fst ` set al \<longleftrightarrow> map_of al k \<noteq> None"
  by (simp add: map_of_eq_None_iff)

lemma enumerate_index_bound: "(i, x) \<in> set (enumerate n xs) \<Longrightarrow> n \<le> i \<and> i < n + length xs"
  by (auto simp: in_set_enumerate_eq)

lemma keys_enumerate: "(\<lambda>x. fst (snd x)) ` set (enumerate n al) = fst ` set al"
proof -
  have "(\<lambda>x. fst (snd x)) ` set (enumerate n al) = fst ` (snd ` set (enumerate n al))"
    by (simp add: image_image)
  also have "snd ` set (enumerate n al) = set al"
    by (metis list.set_map map_snd_enumerate)
  finally show ?thesis .
qed

lemma keys_newMap_gen:
  "fst ` set (fold (\<lambda>(k, v) m. AList.update k v m) es m0) = fst ` set es \<union> fst ` set m0"
proof (induction es arbitrary: m0)
  case Nil
  then show ?case by simp
next
  case (Cons p es)
  have "fst ` set (fold (\<lambda>(k, v) m. AList.update k v m) (p # es) m0)
      = fst ` set es \<union> fst ` set (AList.update (fst p) (snd p) m0)"
    using Cons.IH[of "AList.update (fst p) (snd p) m0"] by (cases p) simp
  also have "\<dots> = fst ` set (p # es) \<union> fst ` set m0"
    unfolding dom_update by auto
  finally show ?case .
qed

lemma keys_newMap: "fst ` set (newMap es) = fst ` set es"
  by (simp add: newMap_def keys_newMap_gen)

lemma distinct_newMap_gen:
  "distinct (map fst m0) \<Longrightarrow> distinct (map fst (fold (\<lambda>(k, v) m. AList.update k v m) es m0))"
  by (induction es arbitrary: m0) (auto simp: distinct_update)

subsection \<open>The score invariant\<close>

lemma drawBaseScore_bounds:
  assumes "0 \<le> r" "r < 1"
  shows "0 \<le> drawBaseScore i r \<and> drawBaseScore i r \<le> 44"
proof -
  have a: "0 \<le> \<lfloor>r * 15\<rfloor>" "0 \<le> \<lfloor>r * 26\<rfloor>" using assms by simp_all
  have "r * 15 < 15" "r * 26 < 26" using assms by simp_all
  then have b: "\<lfloor>r * 15\<rfloor> < 15" "\<lfloor>r * 26\<rfloor> < 26" by (simp_all add: floor_less_iff)
  show ?thesis using a b by (auto simp: drawBaseScore_def)
qed

lemma wellScored_fresh: "0 \<le> b \<Longrightarrow> b \<le> 100 \<Longrightarrow> wellScored (freshDamage b)"
  by (simp add: wellScored_def freshDamage_def)

lemma ledgerOk_update: "ledgerOk dm \<Longrightarrow> wellScored d \<Longrightarrow> ledgerOk (AList.update k d dm)"
  by (auto simp: ledgerOk_def update_conv')

lemma ledgerOk_assign:
  "ledgerOk dm \<Longrightarrow> (\<forall>(i, k) \<in> set ixs. 0 \<le> rnd i \<and> rnd i < 1)
    \<Longrightarrow> ledgerOk (assignBaseScores rnd ixs dm)"
proof (induction ixs arbitrary: dm)
  case Nil
  then show ?case by (simp add: assignBaseScores_def)
next
  case (Cons p ixs)
  obtain i k where p: "p = (i, k)" by (cases p)
  from Cons.prems p have r: "0 \<le> rnd i" "rnd i < 1" by auto
  have "wellScored (freshDamage (drawBaseScore i (rnd i)))"
    using drawBaseScore_bounds[OF r, of i] by (intro wellScored_fresh) auto
  then have "ledgerOk (AList.update k (freshDamage (drawBaseScore i (rnd i))) dm)"
    using Cons.prems(1) by (rule ledgerOk_update[rotated])
  from Cons.IH[OF this] Cons.prems(2) show ?case
    by (simp add: assignBaseScores_def p)
qed

lemma ledgerOk_setNodes:
  assumes "unitDraws rnd (length ns)"
  shows "ledgerOk (buildingDamages (setNodes ns rnd now s))"
proof -
  have "\<forall>(i, k) \<in> set (enumerate 0 (map node_id ns)). 0 \<le> rnd i \<and> rnd i < 1"
    using assms by (auto simp: unitDraws_def dest!: enumerate_index_bound)
  moreover have "ledgerOk []" by (simp add: ledgerOk_def)
  ultimately show ?thesis
    by (simp add: setNodes_def Let_def ledgerOk_assign)
qed

lemma ledgerOk_applyDelta:
  assumes "ledgerOk nd" "0 \<le> v"
  shows "ledgerOk (fst (applyDelta (k, v) (nd, nn)))"
proof (cases "map_of nd k")
  case None
  then show ?thesis using assms by simp
next
  case (Some cur)
  with assms have w: "wellScored cur" by (auto simp: ledgerOk_def)
  have "wellScored (cur\<lparr>earthquakeDamage := earthquakeDamage cur + v,
           totalScore := min 100 (baseScore cur + earthquakeDamage cur + v)\<rparr>)"
    using w assms(2) by (simp add: wellScored_def add.assoc)
  then show ?thesis using Some assms(1)
    by (auto simp: Let_def ledgerOk_update split: option.splits)
qed

lemma ledgerOk_fold_applyDelta:
  "ledgerOk (fst acc) \<Longrightarrow> (\<forall>(k, v) \<in> set damages. 0 \<le> v)
    \<Longrightarrow> ledgerOk (fst (fold applyDelta damages acc))"
proof (induction damages arbitrary: acc)
  case Nil
  then show ?case by simp
next
  case (Cons p damages)
  obtain k v where p: "p = (k, v)" by (cases p)
  obtain nd nn where acc: "acc = (nd, nn)" by (cases acc)
  from Cons.prems p have "0 \<le> v" by auto
  with Cons.prems(1) acc have "ledgerOk (fst (applyDelta p acc))"
    using ledgerOk_applyDelta p by auto
  from Cons.IH[OF this] Cons.prems(2) show ?case by simp
qed

lemma ledgerOk_apply:
  assumes "ledgerOk (buildingDamages s)" "\<forall>(k, v) \<in> set damages. 0 \<le> v"
  shows "ledgerOk (buildingDamages (applyEarthquakeDamage damages s))"
  using ledgerOk_fold_applyDelta[of "(buildingDamages s, nodes s)" damages] assms
  by (simp add: applyEarthquakeDamage_def case_prod_beta)

lemma ledgerOk_fold_reset:
  "ledgerOk (fst acc) \<Longrightarrow> (\<forall>(i, p) \<in> set ixs. 0 \<le> rnd i \<and> rnd i < 1)
    \<Longrightarrow> ledgerOk (fst (fold (resetStep rnd) ixs acc))"
proof (induction ixs arbitrary: acc)
  case Nil
  then show ?case by simp
next
  case (Cons p ixs)
  obtain i k n where p: "p = (i, k, n)" by (cases p)
  obtain nd nn where acc: "acc = (nd, nn)" by (cases acc)
  from Cons.prems p have r: "0 \<le> rnd i" "rnd i < 1" by auto
  have "wellScored (freshDamage (drawBaseScore i (rnd i)))"
    using drawBaseScore_bounds[OF r, of i] by (intro wellScored_fresh) auto
  then have "ledgerOk (fst (resetStep rnd p acc))"
    using Cons.prems(1) by (simp add: p acc Let_def ledgerOk_update)
  from Cons.IH[OF this] Cons.prems(2) show ?case by simp
qed

lemma ledgerOk_reset:
  assumes "unitDraws rnd (length (nodes s))"
  shows "ledgerOk (buildingDamages (resetToSafe rnd now s))"
proof -
  have "\<forall>(i, p) \<in> set (enumerate 0 (nodes s)). 0 \<le> rnd i \<and> rnd i < 1"
    using assms by (auto simp: unitDraws_def dest!: enumerate_index_bound)
  moreover have "ledgerOk (fst (([], nodes s) :: (string, BuildingDamage) jsmap \<times> (string, Node) jsmap))"
    by (simp add: ledgerOk_def)
  ultimately have "ledgerOk (fst (fold (resetStep rnd) (enumerate 0 (nodes s)) ([], nodes s)))"
    by (rule ledgerOk_fold_reset[rotated])
  then show ?thesis
    by (simp add: resetToSafe_def case_prod_beta)
qed

lemma buildingDamages_checkConsensus [simp]:
  "buildingDamages (checkConsensus now s) = buildingDamages s"
  by (simp add: checkConsensus_def updateBuildingSummary_def Let_def case_prod_beta)

lemma ledgerOk_exec:
  "ledgerOk (buildingDamages s) \<Longrightarrow> admissible s a \<Longrightarrow> ledgerOk (buildingDamages (exec a s))"
  by (cases a)
     (simp_all add: ledgerOk_setNodes ledgerOk_apply ledgerOk_reset selectNode_def
        setEarthquakeActive_def setEarthquakeProgress_def updateHeartbeat_def
        updateBuildingSummary_def)

lemma ledgerOk_fold_exec:
  "ledgerOk (buildingDamages s) \<Longrightarrow> admissibleRun s acts
    \<Longrightarrow> ledgerOk (buildingDamages (fold exec acts s))"
  by (induction acts arbitrary: s) (simp_all add: ledgerOk_exec)

lemma demoRun_admissible: "admissibleRun initialState demoRun"
  by (simp add: store_eval)

lemma demoRun_damage:
  "map_of (buildingDamages (run demoRun)) ''node-1''
     = Some \<lparr> baseScore = 37, earthquakeDamage = 80, totalScore = 100 \<rparr>"
  by (simp add: store_eval)

lemma demoRun_node: "map_of (nodes (run demoRun)) ''node-1'' = Some (nodeA\<lparr>status := collapse\<rparr>)"
  by (simp add: store_eval)

text \<open>
  C1. In every state that the store reaches from its initial state by a run of its
  actions (\<^verbatim>\<open>setNodes\<close>, \<^verbatim>\<open>applyEarthquakeDamage\<close>, \<^verbatim>\<open>resetToSafe\<close> and the others, in
  any order and number), every damage record has \<open>0 \<le> totalScore \<le> 100\<close> and
  \<open>totalScore = min(100, baseScore + earthquakeDamage)\<close>. The run is admissible: the
  random draws lie in \<open>[0, 1)\<close> and the damage deltas are not negative, as the
  earthquake engine computes them.
\<close>

theorem totalScore_invariant:
  assumes "admissibleRun initialState acts"
    and "map_of (buildingDamages (run acts)) k = Some d"
  shows "0 \<le> totalScore d \<and> totalScore d \<le> 100
           \<and> totalScore d = min 100 (baseScore d + earthquakeDamage d)"
proof -
  have "ledgerOk (buildingDamages initialState)"
    by (simp add: ledgerOk_def initialState_def)
  then have "ledgerOk (buildingDamages (run acts))"
    unfolding run_def using assms(1) by (rule ledgerOk_fold_exec)
  with assms(2) have "wellScored d" by (auto simp: ledgerOk_def)
  then show ?thesis by (auto simp: wellScored_def)
qed

theorem totalScore_invariant_witness:
  "admissibleRun initialState demoRun
   \<and> map_of (buildingDamages (run demoRun)) ''node-1''
       = Some \<lparr> baseScore = 37, earthquakeDamage = 80, totalScore = 100 \<rparr>
   \<and> (0::real) \<le> 100 \<and> (100::real) = min 100 (37 + 80)"
  using totalScore_invariant[OF demoRun_admissible demoRun_damage]
    demoRun_admissible demoRun_damage
  by simp


subsection \<open>The status invariant\<close>

lemma keys_assign: "fst ` set (assignBaseScores rnd ixs dm) = snd ` set ixs \<union> fst ` set dm"
proof (induction ixs arbitrary: dm)
  case Nil
  then show ?case by (simp add: assignBaseScores_def)
next
  case (Cons p ixs)
  have "fst ` set (assignBaseScores rnd (p # ixs) dm)
      = snd ` set ixs \<union> fst ` set (AList.update (snd p)
           (freshDamage (drawBaseScore (fst p) (rnd (fst p)))) dm)"
    using Cons.IH[of "AList.update (snd p) (freshDamage (drawBaseScore (fst p) (rnd (fst p)))) dm"]
    by (cases p) (simp add: assignBaseScores_def)
  also have "\<dots> = snd ` set (p # ixs) \<union> fst ` set dm"
    unfolding dom_update by auto
  finally show ?case .
qed

lemma distinct_assign: "distinct (map fst dm) \<Longrightarrow> distinct (map fst (assignBaseScores rnd ixs dm))"
  unfolding assignBaseScores_def
  by (induction ixs arbitrary: dm) (auto simp: distinct_update)

lemma map_of_deriveStatuses:
  "distinct (map fst dm) \<Longrightarrow>
   map_of (deriveStatuses dm nm) k =
     (case map_of dm k of
        None \<Rightarrow> map_of nm k
      | Some d \<Rightarrow> map_option (\<lambda>n. n\<lparr>status := getStatusFromScore (totalScore d)\<rparr>) (map_of nm k))"
proof (induction dm arbitrary: nm)
  case Nil
  then show ?case by (simp add: deriveStatuses_def)
next
  case (Cons p dm)
  obtain k0 d0 where p: "p = (k0, d0)" by (cases p)
  define nm' where "nm' = (case map_of nm k0 of None \<Rightarrow> nm
     | Some node \<Rightarrow> AList.update k0 (node\<lparr>status := getStatusFromScore (totalScore d0)\<rparr>) nm)"
  have step: "deriveStatuses ((k0, d0) # dm) nm = deriveStatuses dm nm'"
    by (simp add: deriveStatuses_def nm'_def)
  from Cons.prems p have dist: "distinct (map fst dm)" and notin: "k0 \<notin> fst ` set dm" by auto
  have nm'k: "map_of nm' k = (if k = k0
      then map_option (\<lambda>n. n\<lparr>status := getStatusFromScore (totalScore d0)\<rparr>) (map_of nm k0)
      else map_of nm k)"
    by (auto simp: nm'_def update_conv' split: option.splits)
  show ?case
  proof (cases "k = k0")
    case True
    with notin have "map_of dm k = None" by (simp add: map_of_eq_None_iff)
    then show ?thesis using Cons.IH[OF dist, of nm'] nm'k True by (simp add: step p)
  next
    case False
    then show ?thesis using Cons.IH[OF dist, of nm'] nm'k
      by (simp add: step p cong: option.case_cong)
  qed
qed

lemma keys_deriveStatuses: "fst ` set (deriveStatuses dm nm) = fst ` set nm"
  unfolding deriveStatuses_def
proof (induction dm arbitrary: nm)
  case Nil
  then show ?case by simp
next
  case (Cons p dm)
  obtain k0 d0 where p: "p = (k0, d0)" by (cases p)
  show ?case
    by (cases "map_of nm k0") (simp_all add: p Cons.IH keys_update_present)
qed

lemma setNodes_ok:
  "statusOk (buildingDamages (setNodes ns rnd now s)) (nodes (setNodes ns rnd now s))
   \<and> sameKeys (buildingDamages (setNodes ns rnd now s)) (nodes (setNodes ns rnd now s))"
proof -
  let ?dm = "assignBaseScores rnd (enumerate 0 (map node_id ns)) []"
  let ?nm = "newMap (map (\<lambda>n. (node_id n, n)) ns)"
  have d: "distinct (map fst ?dm)" by (rule distinct_assign) simp
  have k1: "fst ` set ?dm = node_id ` set ns"
    by (simp add: keys_assign) (metis list.set_map map_snd_enumerate)
  have k2: "fst ` set ?nm = node_id ` set ns"
    by (simp add: keys_newMap image_image)
  have "statusOk ?dm (deriveStatuses ?dm ?nm)"
    unfolding statusOk_def by (auto simp: map_of_deriveStatuses[OF d])
  moreover have "sameKeys ?dm (deriveStatuses ?dm ?nm)"
    by (simp add: sameKeys_def keys_deriveStatuses k1 k2)
  ultimately show ?thesis by (simp add: setNodes_def Let_def)
qed

lemma applyDelta_ok:
  assumes "statusOk nd nn" "sameKeys nd nn"
  shows "statusOk (fst (applyDelta p (nd, nn))) (snd (applyDelta p (nd, nn)))
       \<and> sameKeys (fst (applyDelta p (nd, nn))) (snd (applyDelta p (nd, nn)))"
proof -
  obtain k v where p: "p = (k, v)" by (cases p)
  show ?thesis
  proof (cases "map_of nd k")
    case None
    then show ?thesis using assms by (simp add: p)
  next
    case (Some cur)
    then have "k \<in> fst ` set nn" using assms(2) by (simp add: sameKeys_def in_keys_iff)
    then obtain node where node: "map_of nn k = Some node" by (auto simp: in_keys_iff)
    show ?thesis using assms Some node
      by (auto simp: p Let_def statusOk_def sameKeys_def update_conv' keys_update_present)
  qed
qed

lemma fold_applyDelta_ok:
  "statusOk (fst acc) (snd acc) \<and> sameKeys (fst acc) (snd acc) \<Longrightarrow>
   statusOk (fst (fold applyDelta ds acc)) (snd (fold applyDelta ds acc))
   \<and> sameKeys (fst (fold applyDelta ds acc)) (snd (fold applyDelta ds acc))"
proof (induction ds arbitrary: acc)
  case Nil
  then show ?case by simp
next
  case (Cons p ds)
  obtain nd nn where acc: "acc = (nd, nn)" by (cases acc)
  from Cons.prems have "statusOk nd nn" "sameKeys nd nn" by (simp_all add: acc)
  from applyDelta_ok[OF this, of p] Cons.IH[of "applyDelta p acc"] show ?case by (simp add: acc)
qed

lemma apply_ok:
  assumes "statusOk (buildingDamages s) (nodes s) \<and> sameKeys (buildingDamages s) (nodes s)"
  shows "statusOk (buildingDamages (applyEarthquakeDamage ds s)) (nodes (applyEarthquakeDamage ds s))
       \<and> sameKeys (buildingDamages (applyEarthquakeDamage ds s)) (nodes (applyEarthquakeDamage ds s))"
  using fold_applyDelta_ok[of "(buildingDamages s, nodes s)" ds] assms
  by (simp add: applyEarthquakeDamage_def case_prod_beta)

lemma fold_resetStep_ok:
  "statusOk (fst acc) (snd acc) \<Longrightarrow>
   statusOk (fst (fold (resetStep rnd) ixs acc)) (snd (fold (resetStep rnd) ixs acc))"
proof (induction ixs arbitrary: acc)
  case Nil
  then show ?case by simp
next
  case (Cons p ixs)
  obtain i k n where p: "p = (i, k, n)" by (cases p)
  obtain nd nn where acc: "acc = (nd, nn)" by (cases acc)
  have "statusOk (fst (resetStep rnd p acc)) (snd (resetStep rnd p acc))"
    using Cons.prems
    by (auto simp: p acc Let_def statusOk_def update_conv' freshDamage_def)
  from Cons.IH[OF this] show ?case by simp
qed

lemma fold_resetStep_keys:
  "fst ` set (fst (fold (resetStep rnd) ixs acc)) = (fst \<circ> snd) ` set ixs \<union> fst ` set (fst acc)
   \<and> fst ` set (snd (fold (resetStep rnd) ixs acc)) = (fst \<circ> snd) ` set ixs \<union> fst ` set (snd acc)"
proof (induction ixs arbitrary: acc)
  case Nil
  then show ?case by simp
next
  case (Cons p ixs)
  obtain i k n where p: "p = (i, k, n)" by (cases p)
  obtain nd nn where acc: "acc = (nd, nn)" by (cases acc)
  show ?case using Cons.IH[of "resetStep rnd p acc"]
    unfolding p acc by (simp add: Let_def dom_update)
qed

lemma reset_ok:
  "statusOk (buildingDamages (resetToSafe rnd now s)) (nodes (resetToSafe rnd now s))
   \<and> sameKeys (buildingDamages (resetToSafe rnd now s)) (nodes (resetToSafe rnd now s))"
proof -
  let ?r = "fold (resetStep rnd) (enumerate 0 (nodes s)) ([], nodes s)"
  have "statusOk (fst ([], nodes s)) (snd ([], nodes s))" by (simp add: statusOk_def)
  then have a: "statusOk (fst ?r) (snd ?r)" by (rule fold_resetStep_ok)
  have b: "sameKeys (fst ?r) (snd ?r)"
    using fold_resetStep_keys[of rnd "enumerate 0 (nodes s)" "([], nodes s)"]
    by (simp add: sameKeys_def keys_enumerate)
  show ?thesis using a b by (simp add: resetToSafe_def case_prod_beta)
qed

lemma consensusStep_ok:
  assumes "statusOk (buildingDamages s) nn" "map_of nn k \<noteq> None"
  shows "statusOk (buildingDamages s) (fst (consensusStep s now act (k, n) (nn, ne, ch)))
       \<and> fst ` set (fst (consensusStep s now act (k, n) (nn, ne, ch))) = fst ` set nn"
proof -
  from assms(2) obtain n0 where n0: "map_of nn k = Some n0" by auto
  have u: "\<And>w. fst ` set (AList.update k w nn) = fst ` set nn"
    using n0 by (rule keys_update_present)
  have s1: "\<And>w. status w = collapse_inferred \<Longrightarrow> statusOk (buildingDamages s) (AList.update k w nn)"
    using assms(1) by (auto simp: statusOk_def update_conv')
  have s2: "\<And>w d. map_of (buildingDamages s) k = Some d \<Longrightarrow> status w = getStatusFromScore (totalScore d)
      \<Longrightarrow> statusOk (buildingDamages s) (AList.update k w nn)"
    using assms(1) by (auto simp: statusOk_def update_conv')
  show ?thesis using assms(1) u s1 s2
    by (auto simp: Let_def split: option.splits)
qed

lemma fold_consensusStep_ok:
  "statusOk (buildingDamages s) (fst acc) \<Longrightarrow> fst ` set xs \<subseteq> fst ` set (fst acc) \<Longrightarrow>
   statusOk (buildingDamages s) (fst (fold (consensusStep s now act) xs acc))
   \<and> fst ` set (fst (fold (consensusStep s now act) xs acc)) = fst ` set (fst acc)"
proof (induction xs arbitrary: acc)
  case Nil
  then show ?case by simp
next
  case (Cons p xs)
  obtain k n where p: "p = (k, n)" by (cases p)
  obtain nn ne ch where acc: "acc = (nn, ne, ch)" by (cases acc)
  from Cons.prems(2) have "k \<in> fst ` set nn" by (simp add: p acc)
  then have "map_of nn k \<noteq> None" unfolding in_keys_iff .
  from consensusStep_ok[OF _ this, of s now act n ne ch] Cons.prems(1)
  have st: "statusOk (buildingDamages s) (fst (consensusStep s now act p acc))"
    and ks: "fst ` set (fst (consensusStep s now act p acc)) = fst ` set (fst acc)"
    by (simp_all add: p acc)
  from Cons.prems(2) ks have "fst ` set xs \<subseteq> fst ` set (fst (consensusStep s now act p acc))" by simp
  from Cons.IH[OF st this] ks show ?case by simp
qed

lemma checkConsensus_ok:
  assumes "statusOk (buildingDamages s) (nodes s) \<and> sameKeys (buildingDamages s) (nodes s)"
  shows "statusOk (buildingDamages (checkConsensus now s)) (nodes (checkConsensus now s))
       \<and> sameKeys (buildingDamages (checkConsensus now s)) (nodes (checkConsensus now s))"
  using fold_consensusStep_ok[of s "(nodes s, consensusEvidence s, False)" "nodes s" now
          "activeNodeIds (lastHeartbeat s) now"] assms
  by (simp add: checkConsensus_def Let_def case_prod_beta updateBuildingSummary_def sameKeys_def)

lemma exec_ok:
  assumes "statusOk (buildingDamages s) (nodes s) \<and> sameKeys (buildingDamages s) (nodes s)"
  shows "statusOk (buildingDamages (exec a s)) (nodes (exec a s))
       \<and> sameKeys (buildingDamages (exec a s)) (nodes (exec a s))"
proof (cases a)
  case (SetNodes ns rnd now)
  then show ?thesis using setNodes_ok by simp
next
  case (CheckConsensus now)
  then show ?thesis using checkConsensus_ok[OF assms] by simp
next
  case (ApplyEarthquakeDamage ds)
  then show ?thesis using apply_ok[OF assms] by simp
next
  case (ResetToSafe rnd now)
  then show ?thesis using reset_ok by simp
qed (use assms in \<open>simp_all add: selectNode_def setEarthquakeActive_def setEarthquakeProgress_def
       updateHeartbeat_def updateBuildingSummary_def\<close>)

lemma fold_exec_ok:
  "statusOk (buildingDamages s) (nodes s) \<and> sameKeys (buildingDamages s) (nodes s) \<Longrightarrow>
   statusOk (buildingDamages (fold exec acts s)) (nodes (fold exec acts s))
   \<and> sameKeys (buildingDamages (fold exec acts s)) (nodes (fold exec acts s))"
proof (induction acts arbitrary: s)
  case Nil
  then show ?case by simp
next
  case (Cons a acts)
  from Cons.IH[OF exec_ok[OF Cons.prems]] show ?case by simp
qed

text \<open>
  C2. In every state that the store reaches, every building has a damage record, and its
  status is the one \<^const>\<open>getStatusFromScore\<close> derives from its total score (at least 90
  \<^const>\<open>collapse\<close>, at least 70 \<^const>\<open>critical\<close>, at least 30 \<^const>\<open>warning\<close>, at least
  15 \<^const>\<open>anomaly\<close>, else \<^const>\<open>stable\<close>) unless the status is
  \<^const>\<open>collapse_inferred\<close>; so a building whose total score is at least 90 has status
  \<^const>\<open>collapse\<close> unless it is \<^const>\<open>collapse_inferred\<close>.
\<close>

theorem status_derived_from_score:
  assumes "map_of (nodes (run acts)) k = Some n"
  shows "\<exists>d. map_of (buildingDamages (run acts)) k = Some d
           \<and> (status n \<noteq> collapse_inferred \<longrightarrow> status n = getStatusFromScore (totalScore d))
           \<and> (status n \<noteq> collapse_inferred \<longrightarrow>
                 status n = (if totalScore d \<ge> 90 then collapse
                             else if totalScore d \<ge> 70 then critical
                             else if totalScore d \<ge> 30 then warning
                             else if totalScore d \<ge> 15 then anomaly
                             else stable))
           \<and> (totalScore d \<ge> 90 \<and> status n \<noteq> collapse_inferred \<longrightarrow> status n = collapse)"
proof -
  have "statusOk (buildingDamages initialState) (nodes initialState)
      \<and> sameKeys (buildingDamages initialState) (nodes initialState)"
    by (simp add: statusOk_def sameKeys_def initialState_def)
  from fold_exec_ok[OF this, of acts]
  have ok: "statusOk (buildingDamages (run acts)) (nodes (run acts))"
    and sk: "sameKeys (buildingDamages (run acts)) (nodes (run acts))"
    by (simp_all add: run_def)
  from assms have "k \<in> fst ` set (nodes (run acts))" by (simp add: in_keys_iff)
  with sk obtain d where d: "map_of (buildingDamages (run acts)) k = Some d"
    by (auto simp: sameKeys_def in_keys_iff)
  from ok assms d have "status n = collapse_inferred \<or> status n = getStatusFromScore (totalScore d)"
    by (auto simp: statusOk_def)
  then show ?thesis using d by (auto simp: getStatusFromScore.simps)
qed

theorem status_derived_from_score_witness:
  "map_of (nodes (run demoRun)) ''node-1'' = Some (nodeA\<lparr>status := collapse\<rparr>)
   \<and> (\<exists>d. map_of (buildingDamages (run demoRun)) ''node-1'' = Some d
          \<and> totalScore d \<ge> 90
          \<and> status (nodeA\<lparr>status := collapse\<rparr>) \<noteq> collapse_inferred
          \<and> status (nodeA\<lparr>status := collapse\<rparr>) = getStatusFromScore (totalScore d))"
  using status_derived_from_score[OF demoRun_node] demoRun_node demoRun_damage
  by simp



subsection \<open>The consensus check, node by node\<close>

lemma consensusStep_cases:
  "consensusStep s now (activeNodeIds (lastHeartbeat s) now) (k, n) (nn, ne, ch) =
     (if infersCollapse s now k n
        then (AList.update k (n\<lparr>status := collapse_inferred\<rparr>) nn,
              AList.update k (witnessesAt s now k n) ne, True)
      else if restoresStatus s now k n
        then (AList.update k
                (n\<lparr>status := getStatusFromScore (totalScore (the (map_of (buildingDamages s) k)))\<rparr>) nn,
              AList.delete k ne, True)
      else (nn, ne, ch))"
  by (auto simp: infersCollapse_def restoresStatus_def isSilentAt_def witnessesAt_def Let_def
           split: option.splits)

declare consensusStep.simps [simp del]

lemma fold_consensus_other:
  "k \<notin> fst ` set xs \<Longrightarrow>
     map_of (fst (fold (cstep s now) xs acc)) k = map_of (fst acc) k
   \<and> map_of (fst (snd (fold (cstep s now) xs acc))) k = map_of (fst (snd acc)) k"
proof (induction xs arbitrary: acc)
  case Nil
  then show ?case by simp
next
  case (Cons p xs)
  obtain k0 n0 where p: "p = (k0, n0)" by (cases p)
  obtain nn ne ch where acc: "acc = (nn, ne, ch)" by (cases acc)
  from Cons.prems p have ne0: "k \<noteq> k0" and notin: "k \<notin> fst ` set xs" by auto
  have "map_of (fst (cstep s now p acc)) k = map_of nn k
      \<and> map_of (fst (snd (cstep s now p acc))) k = map_of ne k"
    unfolding p acc consensusStep_cases using ne0 by (simp add: update_conv' delete_conv')
  with Cons.IH[OF notin, of "cstep s now p acc"] show ?case by (simp add: acc)
qed

lemma fold_consensus_sticky:
  "snd (snd acc) \<Longrightarrow> snd (snd (fold (cstep s now) xs acc))"
proof (induction xs arbitrary: acc)
  case Nil
  then show ?case by simp
next
  case (Cons p xs)
  obtain k0 n0 where p: "p = (k0, n0)" by (cases p)
  obtain nn ne ch where acc: "acc = (nn, ne, ch)" by (cases acc)
  have "snd (snd (cstep s now p acc))"
    unfolding p acc consensusStep_cases using Cons.prems by (simp add: acc)
  from Cons.IH[OF this] show ?case by simp
qed

lemma fold_consensus_unchanged:
  "\<not> snd (snd (fold (cstep s now) xs acc)) \<Longrightarrow> fold (cstep s now) xs acc = acc"
proof (induction xs arbitrary: acc)
  case Nil
  then show ?case by simp
next
  case (Cons p xs)
  obtain k0 n0 where p: "p = (k0, n0)" by (cases p)
  obtain nn ne ch where acc: "acc = (nn, ne, ch)" by (cases acc)
  from Cons.prems have a: "\<not> snd (snd (fold (cstep s now) xs (cstep s now p acc)))" by simp
  from Cons.IH[OF a] have b: "fold (cstep s now) xs (cstep s now p acc) = cstep s now p acc" .
  with a have "\<not> snd (snd (cstep s now p acc))" by simp
  then have "cstep s now p acc = acc"
    unfolding p acc consensusStep_cases by (simp split: if_splits)
  with b show ?case by simp
qed

lemma fold_consensus_at:
  assumes "distinct (map fst xs)" "(k, n) \<in> set xs"
  shows "map_of (fst (fold (cstep s now) xs acc)) k =
           (if infersCollapse s now k n then Some (n\<lparr>status := collapse_inferred\<rparr>)
            else if restoresStatus s now k n
              then Some (n\<lparr>status := getStatusFromScore (totalScore (the (map_of (buildingDamages s) k)))\<rparr>)
            else map_of (fst acc) k)
       \<and> map_of (fst (snd (fold (cstep s now) xs acc))) k =
           (if infersCollapse s now k n then Some (witnessesAt s now k n)
            else if restoresStatus s now k n then None
            else map_of (fst (snd acc)) k)
       \<and> (infersCollapse s now k n \<or> restoresStatus s now k n
            \<longrightarrow> snd (snd (fold (cstep s now) xs acc)))"
  using assms
proof (induction xs arbitrary: acc)
  case Nil
  then show ?case by simp
next
  case (Cons p xs)
  obtain k0 n0 where p: "p = (k0, n0)" by (cases p)
  obtain nn ne ch where acc: "acc = (nn, ne, ch)" by (cases acc)
  from Cons.prems(1) p have dist: "distinct (map fst xs)" and notin: "k0 \<notin> fst ` set xs" by auto
  show ?case
  proof (cases "(k, n) = p")
    case True
    then have kk: "k0 = k" "n0 = n" using p by auto
    from notin kk have nk: "k \<notin> fst ` set xs" by simp
    define acc1 where "acc1 = cstep s now (k, n) acc"
    have a1: "map_of (fst acc1) k =
           (if infersCollapse s now k n then Some (n\<lparr>status := collapse_inferred\<rparr>)
            else if restoresStatus s now k n
              then Some (n\<lparr>status := getStatusFromScore (totalScore (the (map_of (buildingDamages s) k)))\<rparr>)
            else map_of (fst acc) k)"
      and a2: "map_of (fst (snd acc1)) k =
           (if infersCollapse s now k n then Some (witnessesAt s now k n)
            else if restoresStatus s now k n then None
            else map_of (fst (snd acc)) k)"
      and a3: "infersCollapse s now k n \<or> restoresStatus s now k n \<longrightarrow> snd (snd acc1)"
      unfolding acc1_def acc consensusStep_cases
      by (simp_all add: update_conv' delete_conv')
    have f: "fold (cstep s now) (p # xs) acc = fold (cstep s now) xs acc1"
      by (simp add: acc1_def p kk)
    from a3 have flag: "infersCollapse s now k n \<or> restoresStatus s now k n
        \<longrightarrow> snd (snd (fold (cstep s now) xs acc1))"
      using fold_consensus_sticky[of acc1 s now xs] by blast
    show ?thesis
      unfolding f using fold_consensus_other[OF nk, of s now acc1] flag a1 a2
      by presburger
  next
    case False
    with Cons.prems(2) have mem: "(k, n) \<in> set xs" by auto
    then have "k \<in> fst ` set xs" by force
    with notin have ne0: "k \<noteq> k0" by auto
    have "map_of (fst (cstep s now p acc)) k = map_of nn k
      \<and> map_of (fst (snd (cstep s now p acc))) k = map_of ne k"
      unfolding p acc consensusStep_cases using ne0 by (simp add: update_conv' delete_conv')
    with Cons.IH[OF dist mem, of "cstep s now p acc"] show ?thesis by (simp add: acc)
  qed
qed

lemma checkConsensus_at:
  assumes "distinct (map fst (nodes s))" "map_of (nodes s) k = Some n"
  shows "map_of (nodes (checkConsensus now s)) k =
           Some (if infersCollapse s now k n then n\<lparr>status := collapse_inferred\<rparr>
                 else if restoresStatus s now k n
                   then n\<lparr>status := getStatusFromScore (totalScore (the (map_of (buildingDamages s) k)))\<rparr>
                 else n)"
    and "map_of (consensusEvidence (checkConsensus now s)) k =
           (if infersCollapse s now k n then Some (witnessesAt s now k n)
            else if restoresStatus s now k n then None
            else map_of (consensusEvidence s) k)"
proof -
  let ?acc = "(nodes s, consensusEvidence s, False)"
  let ?r = "fold (cstep s now) (nodes s) ?acc"
  from assms(2) have mem: "(k, n) \<in> set (nodes s)" by (rule map_of_SomeD)
  note at = fold_consensus_at[OF assms(1) mem, of s now ?acc]
  have cc: "checkConsensus now s =
     (if snd (snd ?r) then updateBuildingSummary (s\<lparr>nodes := fst ?r, consensusEvidence := fst (snd ?r)\<rparr>)
      else s)"
    by (simp add: checkConsensus_def Let_def case_prod_beta)
  show "map_of (nodes (checkConsensus now s)) k =
           Some (if infersCollapse s now k n then n\<lparr>status := collapse_inferred\<rparr>
                 else if restoresStatus s now k n
                   then n\<lparr>status := getStatusFromScore (totalScore (the (map_of (buildingDamages s) k)))\<rparr>
                 else n)"
  proof (cases "snd (snd ?r)")
    case True
    then show ?thesis using at assms(2) by (simp add: cc updateBuildingSummary_def)
  next
    case False
    with at have "\<not> infersCollapse s now k n" "\<not> restoresStatus s now k n" by auto
    with False show ?thesis using assms(2) by (simp add: cc)
  qed
  show "map_of (consensusEvidence (checkConsensus now s)) k =
           (if infersCollapse s now k n then Some (witnessesAt s now k n)
            else if restoresStatus s now k n then None
            else map_of (consensusEvidence s) k)"
  proof (cases "snd (snd ?r)")
    case True
    then show ?thesis using at by (simp add: cc updateBuildingSummary_def)
  next
    case False
    with at have "\<not> infersCollapse s now k n" "\<not> restoresStatus s now k n" by auto
    with False show ?thesis by (simp add: cc)
  qed
qed




lemma distinct_deriveStatuses: "distinct (map fst nm) \<Longrightarrow> distinct (map fst (deriveStatuses dm nm))"
  unfolding deriveStatuses_def
proof (induction dm arbitrary: nm)
  case Nil
  then show ?case by simp
next
  case (Cons p dm)
  obtain k0 d0 where p: "p = (k0, d0)" by (cases p)
  show ?case
    by (cases "map_of nm k0") (simp_all add: p Cons.IH Cons.prems distinct_update)
qed

lemma distinct_newMap: "distinct (map fst (newMap es))"
  by (simp add: newMap_def distinct_newMap_gen)

lemma distinct_fold_applyDelta:
  "distinct (map fst (snd acc)) \<Longrightarrow> distinct (map fst (snd (fold applyDelta ds acc)))"
proof (induction ds arbitrary: acc)
  case Nil
  then show ?case by simp
next
  case (Cons p ds)
  obtain k v where p: "p = (k, v)" by (cases p)
  obtain nd nn where acc: "acc = (nd, nn)" by (cases acc)
  have "distinct (map fst (snd (applyDelta p acc)))"
    using Cons.prems by (auto simp: p acc Let_def distinct_update split: option.splits)
  from Cons.IH[OF this] show ?case by simp
qed

lemma distinct_fold_resetStep:
  "distinct (map fst (snd acc)) \<Longrightarrow> distinct (map fst (snd (fold (resetStep rnd) ixs acc)))"
proof (induction ixs arbitrary: acc)
  case Nil
  then show ?case by simp
next
  case (Cons p ixs)
  obtain i k n where p: "p = (i, k, n)" by (cases p)
  obtain nd nn where acc: "acc = (nd, nn)" by (cases acc)
  have "distinct (map fst (snd (resetStep rnd p acc)))"
    using Cons.prems by (simp add: p acc Let_def distinct_update)
  from Cons.IH[OF this] show ?case by simp
qed

lemma distinct_fold_consensusStep:
  "distinct (map fst (fst acc)) \<Longrightarrow> distinct (map fst (fst (fold (cstep s now) xs acc)))"
proof (induction xs arbitrary: acc)
  case Nil
  then show ?case by simp
next
  case (Cons p xs)
  obtain k n where p: "p = (k, n)" by (cases p)
  obtain nn ne ch where acc: "acc = (nn, ne, ch)" by (cases acc)
  have "distinct (map fst (fst (cstep s now p acc)))"
    unfolding p acc consensusStep_cases using Cons.prems by (simp add: acc distinct_update)
  from Cons.IH[OF this] show ?case by simp
qed

lemma distinct_fold_update:
  "distinct (map fst m) \<Longrightarrow> distinct (map fst (fold (\<lambda>k m. AList.update k v m) ks m))"
  by (induction ks arbitrary: m) (simp_all add: distinct_update)

lemma distinct_exec:
  assumes "distinct (map fst (nodes s))" "distinct (map fst (lastHeartbeat s))"
  shows "distinct (map fst (nodes (exec a s))) \<and> distinct (map fst (lastHeartbeat (exec a s)))"
proof (cases a)
  case (SetNodes ns rnd now)
  then show ?thesis
    by (simp add: setNodes_def Let_def distinct_deriveStatuses distinct_newMap)
next
  case (UpdateHeartbeat ks now)
  then show ?thesis using assms by (simp add: updateHeartbeat_def distinct_fold_update)
next
  case (CheckConsensus now)
  then show ?thesis
    using assms distinct_fold_consensusStep[of "(nodes s, consensusEvidence s, False)" s now "nodes s"]
    by (simp add: checkConsensus_def Let_def case_prod_beta updateBuildingSummary_def)
next
  case (ApplyEarthquakeDamage ds)
  then show ?thesis
    using assms distinct_fold_applyDelta[of "(buildingDamages s, nodes s)" ds]
    by (simp add: applyEarthquakeDamage_def case_prod_beta)
next
  case (ResetToSafe rnd now)
  then show ?thesis
    using assms distinct_fold_resetStep[of "([], nodes s)" rnd "enumerate 0 (nodes s)"]
    by (simp add: resetToSafe_def case_prod_beta distinct_newMap)
qed (use assms in \<open>simp_all add: selectNode_def setEarthquakeActive_def setEarthquakeProgress_def
       updateBuildingSummary_def\<close>)

lemma distinct_fold_exec:
  "distinct (map fst (nodes s)) \<and> distinct (map fst (lastHeartbeat s)) \<Longrightarrow>
   distinct (map fst (nodes (fold exec acts s))) \<and> distinct (map fst (lastHeartbeat (fold exec acts s)))"
proof (induction acts arbitrary: s)
  case Nil
  then show ?case by simp
next
  case (Cons a acts)
  from Cons.prems have "distinct (map fst (nodes (exec a s)))
      \<and> distinct (map fst (lastHeartbeat (exec a s)))"
    using distinct_exec by blast
  from Cons.IH[OF this] show ?case by simp
qed

text \<open>Every state that the store reaches is well formed.\<close>

lemma run_wellFormed: "wellFormed (run acts)"
proof -
  have "statusOk (buildingDamages initialState) (nodes initialState)
      \<and> sameKeys (buildingDamages initialState) (nodes initialState)"
    by (simp add: statusOk_def sameKeys_def initialState_def)
  from fold_exec_ok[OF this, of acts]
  have sk: "sameKeys (buildingDamages (run acts)) (nodes (run acts))"
    by (simp add: run_def)
  have "distinct (map fst (nodes initialState)) \<and> distinct (map fst (lastHeartbeat initialState))"
    by (simp add: initialState_def)
  from distinct_fold_exec[OF this, of acts] sk show ?thesis
    by (simp add: wellFormed_def run_def)
qed

subsection \<open>An inferred collapse and a recovery, evaluated\<close>

lemma nodeDistance_less_iff:
  "0 < r \<Longrightarrow> nodeDistance a b < r \<longleftrightarrow> (lat a - lat b)\<^sup>2 + (lng a - lng b)\<^sup>2 < r\<^sup>2"
proof -
  assume r: "0 < r"
  have "nodeDistance a b < r \<longleftrightarrow> sqrt ((lat a - lat b)\<^sup>2 + (lng a - lng b)\<^sup>2) < sqrt (r\<^sup>2)"
    using r by (simp add: nodeDistance_def)
  then show ?thesis by (simp only: real_sqrt_less_iff)
qed

lemma near_iff:
  "nodeDistance a b < NEIGHBOR_RADIUS \<longleftrightarrow> (lat a - lat b)\<^sup>2 + (lng a - lng b)\<^sup>2 < 0.0015\<^sup>2"
  using nodeDistance_less_iff[of NEIGHBOR_RADIUS a b] by (simp add: NEIGHBOR_RADIUS_def)

lemmas insd_eval = run_def initialState_def setNodes_def newMap_def assignBaseScores_def
  deriveStatuses_def drawBaseScore_def freshDamage_def summaryOfDamages_def countByScore_def
  Let_def nodeA_def nodeB_def nodeC_def nodeD_def nodeE_def insdRun_def
  getStatusFromScore.simps setEarthquakeActive_def updateHeartbeat_def

lemma insdState_nodes: "nodes (run insdRun) =
   [(''node-1'', nodeA\<lparr>status := warning\<rparr>), (''node-2'', nodeB\<lparr>status := warning\<rparr>),
    (''node-3'', nodeC), (''node-4'', nodeD), (''node-5'', nodeE)]"
  by (simp add: insd_eval)

lemma insdState_hb: "lastHeartbeat (run insdRun) =
   [(''node-1'', 0), (''node-2'', 1500), (''node-3'', 1500), (''node-4'', 1500), (''node-5'', 1500)]"
  by (simp add: insd_eval)

lemma insdState_active: "isEarthquakeActive (run insdRun)"
  by (simp add: insd_eval)

lemma insd_witnesses: "witnessesAt (run insdRun) 1600 ''node-1'' (nodeA\<lparr>status := warning\<rparr>) = [''node-2'', ''node-3'', ''node-4'']"
  unfolding witnessesAt_def insdState_nodes insdState_hb
  by (simp add: findWitnesses_def activeNodeIds_def SILENCE_THRESHOLD_def near_iff
        nodeA_def nodeB_def nodeC_def nodeD_def nodeE_def power2_eq_square)

lemma insd_infers: "infersCollapse (run insdRun) 1600 ''node-1'' (nodeA\<lparr>status := warning\<rparr>)"
  unfolding infersCollapse_def insd_witnesses
  by (simp add: isSilentAt_def insdState_hb insdState_active lastSeenOf_def SILENCE_THRESHOLD_def)

lemma insd_after:
  "map_of (nodes (checkConsensus 1600 (run insdRun))) ''node-1'' = Some (nodeA\<lparr>status := collapse_inferred\<rparr>)"
  using checkConsensus_at(1)[of "run insdRun" "''node-1''" "nodeA\<lparr>status := warning\<rparr>" 1600] insd_infers
  by (simp add: insdState_nodes)



lemma insdState_damage:
  "map_of (buildingDamages (run insdRun)) ''node-1''
     = Some \<lparr> baseScore = 37, earthquakeDamage = 0, totalScore = 37 \<rparr>"
  by (simp add: insd_eval)

lemma lastHeartbeat_checkConsensus [simp]:
  "lastHeartbeat (checkConsensus now s) = lastHeartbeat s"
  by (simp add: checkConsensus_def updateBuildingSummary_def Let_def case_prod_beta)

lemma recoveryRun_eq:
  "run recoveryRun = updateHeartbeat [''node-1''] 1700 (checkConsensus 1600 (run insdRun))"
  by (simp add: run_def recoveryRun_def)

lemma recovery_node:
  "map_of (nodes (run recoveryRun)) ''node-1'' = Some (nodeA\<lparr>status := collapse_inferred\<rparr>)"
  using insd_after by (simp add: recoveryRun_eq updateHeartbeat_def)

lemma recovery_heartbeat: "lastSeenOf (lastHeartbeat (run recoveryRun)) ''node-1'' = 1700"
  by (simp add: recoveryRun_eq updateHeartbeat_def insdState_hb lastSeenOf_def)

lemma recovery_damage:
  "map_of (buildingDamages (run recoveryRun)) ''node-1''
     = Some \<lparr> baseScore = 37, earthquakeDamage = 0, totalScore = 37 \<rparr>"
  using insdState_damage by (simp add: recoveryRun_eq updateHeartbeat_def)



text \<open>
  C6. For a building whose status is \<^const>\<open>collapse_inferred\<close> and whose heartbeat is
  again younger than the silence threshold, the consensus check sets the status to the
  one \<^const>\<open>getStatusFromScore\<close> derives from the total score of its damage record, and
  the consensus evidence has no entry for the building afterwards.
\<close>

theorem resumed_heartbeat_restores_status:
  assumes "wellFormed s"
    and "map_of (nodes s) k = Some n" and "status n = collapse_inferred"
    and "now - lastSeenOf (lastHeartbeat s) k < SILENCE_THRESHOLD"
  shows "\<exists>d. map_of (buildingDamages s) k = Some d
           \<and> map_of (nodes (checkConsensus now s)) k
                = Some (n\<lparr>status := getStatusFromScore (totalScore d)\<rparr>)
           \<and> map_of (consensusEvidence (checkConsensus now s)) k = None"
proof -
  from assms(1) have dn: "distinct (map fst (nodes s))"
    and sk: "sameKeys (buildingDamages s) (nodes s)"
    by (simp_all add: wellFormed_def)
  from assms(2) have "k \<in> fst ` set (nodes s)" by (simp add: in_keys_iff)
  with sk obtain d where d: "map_of (buildingDamages s) k = Some d"
    by (auto simp: sameKeys_def in_keys_iff)
  have r: "restoresStatus s now k n" and ni: "\<not> infersCollapse s now k n"
    using assms(3,4) d by (simp_all add: restoresStatus_def infersCollapse_def isSilentAt_def)
  from checkConsensus_at[OF dn assms(2), of now] r ni d show ?thesis by simp
qed

theorem resumed_heartbeat_restores_status_witness:
  "wellFormed (run recoveryRun)
   \<and> map_of (nodes (run recoveryRun)) ''node-1'' = Some (nodeA\<lparr>status := collapse_inferred\<rparr>)
   \<and> 1800 - lastSeenOf (lastHeartbeat (run recoveryRun)) ''node-1'' < SILENCE_THRESHOLD
   \<and> map_of (nodes (checkConsensus 1800 (run recoveryRun))) ''node-1''
        = Some (nodeA\<lparr>status := warning\<rparr>)
   \<and> map_of (consensusEvidence (checkConsensus 1800 (run recoveryRun))) ''node-1'' = None"
proof -
  have c: "status (nodeA\<lparr>status := collapse_inferred\<rparr>) = collapse_inferred" by simp
  have h: "1800 - lastSeenOf (lastHeartbeat (run recoveryRun)) ''node-1'' < SILENCE_THRESHOLD"
    by (simp add: recovery_heartbeat SILENCE_THRESHOLD_def)
  from resumed_heartbeat_restores_status[OF run_wellFormed recovery_node c h]
    run_wellFormed recovery_node h recovery_damage
  show ?thesis by (simp add: getStatusFromScore.simps)
qed


section \<open>Properties of the damage deltas\<close>

lemma applyDelta_monotone:
  assumes "0 \<le> v" "map_of nd k = Some d"
  shows "\<exists>d'. map_of (fst (applyDelta (k0, v) (nd, nn))) k = Some d'
            \<and> earthquakeDamage d \<le> earthquakeDamage d' \<and> baseScore d' = baseScore d"
proof (cases "map_of nd k0")
  case None
  then show ?thesis using assms by simp
next
  case (Some cur)
  show ?thesis
  proof (cases "k = k0")
    case True
    then show ?thesis using assms Some
      by (auto simp: Let_def update_conv' split: option.splits)
  next
    case False
    then show ?thesis using assms Some
      by (auto simp: Let_def update_conv' split: option.splits)
  qed
qed

lemma fold_applyDelta_monotone:
  "(\<forall>(k0, v) \<in> set damages. 0 \<le> v) \<Longrightarrow> map_of (fst acc) k = Some d \<Longrightarrow>
   \<exists>d'. map_of (fst (fold applyDelta damages acc)) k = Some d'
       \<and> earthquakeDamage d \<le> earthquakeDamage d' \<and> baseScore d' = baseScore d"
proof (induction damages arbitrary: acc d)
  case Nil
  then show ?case by simp
next
  case (Cons p damages)
  obtain k0 v where p: "p = (k0, v)" by (cases p)
  obtain nd nn where acc: "acc = (nd, nn)" by (cases acc)
  from Cons.prems p have v: "0 \<le> v" and rest: "\<forall>(k0, v) \<in> set damages. 0 \<le> v" by auto
  from Cons.prems(2) acc have "map_of nd k = Some d" by simp
  from applyDelta_monotone[OF v this, of k0 nn]
  obtain d1 where d1: "map_of (fst (applyDelta p acc)) k = Some d1"
      "earthquakeDamage d \<le> earthquakeDamage d1" "baseScore d1 = baseScore d"
    unfolding p acc by blast
  from Cons.IH[OF rest d1(1)]
  obtain d' where "map_of (fst (fold applyDelta damages (applyDelta p acc))) k = Some d'"
      "earthquakeDamage d1 \<le> earthquakeDamage d'" "baseScore d' = baseScore d1"
    by blast
  with d1 show ?case by auto
qed

lemma applyEarthquakeDamage_monotone:
  assumes "\<forall>(k0, v) \<in> set damages. 0 \<le> v" "map_of (buildingDamages s) k = Some d"
  shows "\<exists>d'. map_of (buildingDamages (applyEarthquakeDamage damages s)) k = Some d'
            \<and> earthquakeDamage d \<le> earthquakeDamage d' \<and> baseScore d' = baseScore d"
  using fold_applyDelta_monotone[of damages "(buildingDamages s, nodes s)" k d] assms
  by (simp add: applyEarthquakeDamage_def case_prod_beta)

lemma damageDistanceFactor_pos: "0 < damageDistanceFactor config node"
  by (simp add: damageDistanceFactor_def Let_def max_def)

lemma vulnerabilityOf_pos: "0 < vulnerabilityOf meta"
  by (simp add: vulnerabilityOf_def Let_def)

lemma rawDamage_nonneg: "0 \<le> intensity config \<Longrightarrow> 0 \<le> r \<Longrightarrow> 0 \<le> rawDamage config node r"
  unfolding rawDamage_def
  using damageDistanceFactor_pos[of config node] vulnerabilityOf_pos[of "metadata node"]
  by (intro mult_nonneg_nonneg) simp_all

lemma mathRound_nonneg: "0 \<le> x \<Longrightarrow> 0 \<le> mathRound x"
  by (simp add: mathRound_def)

lemma nodeDamage_range:
  assumes "0 \<le> intensity config" "0 \<le> r"
  shows "0 \<le> nodeDamage config node r \<and> nodeDamage config node r \<le> 100"
  using mathRound_nonneg[OF rawDamage_nonneg[OF assms, of node]]
  by (simp add: nodeDamage_def Let_def)

lemma in_set_updateD:
  "(a, b) \<in> set (AList.update k v m) \<Longrightarrow> (a = k \<and> b = v) \<or> (a, b) \<in> set m"
  by (induction m) (auto split: if_splits)

lemma computeDamageResults_values_gen:
  assumes "\<forall>(i, node) \<in> set ixs. P (nodeDamage config node (rnd i))"
    and "\<forall>(k, v) \<in> set m. P v"
  shows "\<forall>(k, v) \<in> set (fold (\<lambda>(i, node) m. AList.update (node_id node) (nodeDamage config node (rnd i)) m) ixs m). P v"
  using assms
proof (induction ixs arbitrary: m)
  case Nil
  then show ?case by simp
next
  case (Cons p ixs)
  obtain i node where p: "p = (i, node)" by (cases p)
  have "\<forall>(k, v) \<in> set (AList.update (node_id node) (nodeDamage config node (rnd i)) m). P v"
    using Cons.prems p by (auto dest!: in_set_updateD)
  from Cons.IH[OF _ this] Cons.prems(1) show ?case by (simp add: p)
qed

lemma computeDamageResults_nonneg:
  assumes "0 \<le> intensity config" "\<forall>i < length population. 0 \<le> rnd i"
  shows "\<forall>(k, v) \<in> set (computeDamageResults config population rnd). 0 \<le> v \<and> v \<le> 100"
  unfolding computeDamageResults_def
proof (rule computeDamageResults_values_gen)
  show "\<forall>(i, node) \<in> set (enumerate 0 population).
          0 \<le> nodeDamage config node (rnd i) \<and> nodeDamage config node (rnd i) \<le> 100"
    using assms by (auto dest!: enumerate_index_bound intro!: nodeDamage_range[THEN conjunct1] nodeDamage_range[THEN conjunct2])
qed simp

lemma computeDamageResults_at_gen:
  assumes "distinct (map (\<lambda>x. node_id (snd x)) ixs)" "(i, node) \<in> set ixs"
  shows "map_of (fold (\<lambda>(i, node) m. AList.update (node_id node) (nodeDamage config node (rnd i)) m) ixs m)
           (node_id node) = Some (nodeDamage config node (rnd i))"
  using assms
proof (induction ixs arbitrary: m)
  case Nil
  then show ?case by simp
next
  case (Cons p ixs)
  obtain i0 node0 where p: "p = (i0, node0)" by (cases p)
  from Cons.prems(1) p have dist: "distinct (map (\<lambda>x. node_id (snd x)) ixs)"
    and notin: "node_id node0 \<notin> (\<lambda>x. node_id (snd x)) ` set ixs" by auto
  show ?case
  proof (cases "(i, node) \<in> set ixs")
    case True
    from Cons.IH[OF dist True] show ?thesis by (simp add: p)
  next
    case False
    with Cons.prems(2) p have e: "i0 = i" "node0 = node" by auto
    have other: "\<And>m'. map_of (fold (\<lambda>(i, node) m. AList.update (node_id node) (nodeDamage config node (rnd i)) m) ixs m')
           (node_id node) = map_of m' (node_id node)"
      using notin unfolding e
    proof (induction ixs)
      case Nil
      then show ?case by simp
    next
      case (Cons q ixs)
      obtain j nq where q: "q = (j, nq)" by (cases q)
      from Cons.prems q have "node_id nq \<noteq> node_id node" by auto
      with Cons show ?case by (simp add: q update_conv')
    qed
    show ?thesis by (simp add: p e other update_conv')
  qed
qed


lemma buildingDamages_simple_exec:
  "\<not> isReset a \<Longrightarrow> (\<forall>ds. a \<noteq> ApplyEarthquakeDamage ds)
     \<Longrightarrow> buildingDamages (exec a s) = buildingDamages s"
  by (cases a) (simp_all add: selectNode_def setEarthquakeActive_def setEarthquakeProgress_def
       updateHeartbeat_def updateBuildingSummary_def)

lemmas sim_eval = demoNode1_def demoNode2_def demoConfig_def nodeDamage_def rawDamage_def
  damageDistanceFactor_def vulnerabilityOf_def mathRound_def Let_def

lemma demo_ids: "node_id demoNode1 = ''node-1''" "node_id demoNode2 = ''node-2''"
  by (simp_all add: demoNode1_def demoNode2_def)

lemma demo_df1: "damageDistanceFactor demoConfig demoNode1 = 1"
  by (simp add: damageDistanceFactor_def demoConfig_def demoNode1_def)

lemma demo_df2: "damageDistanceFactor demoConfig demoNode2 = 1 / 5"
proof -
  have "sqrt ((1 / 50)\<^sup>2) = (1 / 50 :: real)" by (simp only: real_sqrt_abs)
  moreover have "(lat demoNode2 - epicenterLat demoConfig)\<^sup>2 + (lng demoNode2 - epicenterLng demoConfig)\<^sup>2
     = ((1 / 50)\<^sup>2 :: real)"
    by (simp add: demoConfig_def demoNode2_def power2_eq_square)
  ultimately show ?thesis by (simp only: damageDistanceFactor_def Let_def)
qed

lemma demo_intensity: "intensity demoConfig = 2"
  by (simp add: demoConfig_def)

lemma demo_vulnerability:
  "vulnerabilityOf (metadata demoNode1) = 312 / 125" "vulnerabilityOf (metadata demoNode2) = 1"
  by (simp_all add: vulnerabilityOf_def demoNode1_def demoNode2_def Let_def)

lemma demo_nodeDamage:
  "nodeDamage demoConfig demoNode1 (1 / 2) = 94" "nodeDamage demoConfig demoNode2 (1 / 2) = 8"
  by (simp_all add: nodeDamage_def rawDamage_def demo_df1 demo_df2 demo_vulnerability
        mathRound_def Let_def demo_intensity)

lemma demo_damageResults:
  "computeDamageResults demoConfig [demoNode1, demoNode2] (\<lambda>_. 1 / 2)
     = [(''node-1'', 94), (''node-2'', 8)]"
  by (simp add: computeDamageResults_def demo_ids demo_nodeDamage)

lemma demo_after_engine:
  "map_of (buildingDamages (applyEarthquakeDamage
      (computeDamageResults demoConfig [demoNode1, demoNode2] (\<lambda>_. 1 / 2)) (run demoRun))) ''node-1''
   = Some \<lparr> baseScore = 37, earthquakeDamage = 174, totalScore = 100 \<rparr>"
proof -
  have "buildingDamages (run demoRun)
      = [(''node-1'', \<lparr> baseScore = 37, earthquakeDamage = 80, totalScore = 100 \<rparr>)]"
    by (simp add: store_eval)
  moreover have "nodes (run demoRun) = [(''node-1'', nodeA\<lparr>status := collapse\<rparr>)]"
    by (simp add: store_eval)
  ultimately show ?thesis
    by (simp add: applyEarthquakeDamage_def demo_damageResults)
qed

text \<open>
  C4. For a building with a damage record, applying a damage delta map never decreases
  the \<open>earthquakeDamage\<close> of the record: for the delta map that the earthquake engine
  computes (for a config of non-negative intensity and draws in \<open>[0, 1)\<close>), and for every
  delta map whose deltas are not negative. Every action of the store other than
  initialisation and reset leaves the accumulator as it is or increases it.
\<close>

theorem earthquakeDamage_never_decreases:
  assumes "map_of (buildingDamages s) k = Some d"
  shows "(0 \<le> intensity config \<and> unitDraws rnd (length population) \<longrightarrow>
           (\<exists>d'. map_of (buildingDamages
                     (applyEarthquakeDamage (computeDamageResults config population rnd) s)) k = Some d'
                \<and> earthquakeDamage d \<le> earthquakeDamage d'))
       \<and> ((\<forall>(k0, v) \<in> set damages. 0 \<le> v) \<longrightarrow>
           (\<exists>d'. map_of (buildingDamages (applyEarthquakeDamage damages s)) k = Some d'
                \<and> earthquakeDamage d \<le> earthquakeDamage d'))
       \<and> (\<not> isReset a \<and> admissible s a \<longrightarrow>
           (\<exists>d'. map_of (buildingDamages (exec a s)) k = Some d'
                \<and> earthquakeDamage d \<le> earthquakeDamage d'))"
proof (intro conjI impI)
  assume h: "0 \<le> intensity config \<and> unitDraws rnd (length population)"
  then have "\<forall>(k0, v) \<in> set (computeDamageResults config population rnd). 0 \<le> v \<and> v \<le> 100"
    by (intro computeDamageResults_nonneg) (simp_all add: unitDraws_def)
  then have "\<forall>(k0, v) \<in> set (computeDamageResults config population rnd). 0 \<le> v" by auto
  from applyEarthquakeDamage_monotone[OF this assms]
  show "\<exists>d'. map_of (buildingDamages
                     (applyEarthquakeDamage (computeDamageResults config population rnd) s)) k = Some d'
                \<and> earthquakeDamage d \<le> earthquakeDamage d'" by blast
next
  assume "\<forall>(k0, v) \<in> set damages. 0 \<le> v"
  from applyEarthquakeDamage_monotone[OF this assms]
  show "\<exists>d'. map_of (buildingDamages (applyEarthquakeDamage damages s)) k = Some d'
                \<and> earthquakeDamage d \<le> earthquakeDamage d'" by blast
next
  assume h: "\<not> isReset a \<and> admissible s a"
  show "\<exists>d'. map_of (buildingDamages (exec a s)) k = Some d'
                \<and> earthquakeDamage d \<le> earthquakeDamage d'"
  proof (cases "\<exists>ds. a = ApplyEarthquakeDamage ds")
    case True
    then obtain ds where a: "a = ApplyEarthquakeDamage ds" by blast
    with h have "\<forall>(k0, v) \<in> set ds. 0 \<le> v" by simp
    from applyEarthquakeDamage_monotone[OF this assms] show ?thesis by (auto simp: a)
  next
    case False
    with h have "buildingDamages (exec a s) = buildingDamages s"
      by (intro buildingDamages_simple_exec) auto
    with assms show ?thesis by auto
  qed
qed

theorem earthquakeDamage_never_decreases_witness:
  "map_of (buildingDamages (run demoRun)) ''node-1''
     = Some \<lparr> baseScore = 37, earthquakeDamage = 80, totalScore = 100 \<rparr>
   \<and> 0 \<le> intensity demoConfig \<and> unitDraws (\<lambda>_. 1 / 2) (length [demoNode1, demoNode2])
   \<and> (\<exists>d'. map_of (buildingDamages (applyEarthquakeDamage
              (computeDamageResults demoConfig [demoNode1, demoNode2] (\<lambda>_. 1 / 2)) (run demoRun)))
              ''node-1'' = Some d'
          \<and> earthquakeDamage d' = 174 \<and> (80::real) \<le> earthquakeDamage d')
   \<and> (0::real) \<le> 5
   \<and> (\<exists>d'. map_of (buildingDamages (applyEarthquakeDamage [(''node-1'', 5)] (run demoRun)))
              ''node-1'' = Some d'
          \<and> (80::real) \<le> earthquakeDamage d')
   \<and> \<not> isReset (CheckConsensus 0) \<and> admissible (run demoRun) (CheckConsensus 0)
   \<and> (\<exists>d'. map_of (buildingDamages (exec (CheckConsensus 0) (run demoRun))) ''node-1'' = Some d'
          \<and> (80::real) \<le> earthquakeDamage d')"
proof -
  have a: "0 \<le> intensity demoConfig \<and> unitDraws (\<lambda>_. 1 / 2) (length [demoNode1, demoNode2])"
    by (simp add: demoConfig_def unitDraws_def)
  have b: "\<forall>(k0, v) \<in> set [(''node-1'', 5::real)]. 0 \<le> v" by simp
  have c: "\<not> isReset (CheckConsensus 0) \<and> admissible (run demoRun) (CheckConsensus 0)" by simp
  from earthquakeDamage_never_decreases[OF demoRun_damage, of demoConfig "\<lambda>_. 1 / 2"
         "[demoNode1, demoNode2]" "[(''node-1'', 5)]" "CheckConsensus 0"]
    a b c demoRun_damage demo_after_engine
  show ?thesis by simp
qed


section \<open>The damage line in double arithmetic\<close>

text \<open>In exact arithmetic the line is the one evaluated above.\<close>

lemma vulnerabilityIn_exact: "vulnerabilityIn exactArith meta = vulnerabilityOf meta"
  by (simp add: vulnerabilityIn_def vulnerabilityOf_def exactArith_sel)

lemma damageDistanceFactorIn_exact:
  "damageDistanceFactorIn exactArith config node = damageDistanceFactor config node"
  by (simp add: damageDistanceFactorIn_def damageDistanceFactor_def exactArith_sel)

lemma nodeDamageIn_exact: "nodeDamageIn exactArith config node r = nodeDamage config node r"
  by (simp add: nodeDamageIn_def nodeDamage_def rawDamageIn_def rawDamage_def
        vulnerabilityIn_exact damageDistanceFactorIn_exact exactArith_sel)

lemma computeDamageResultsIn_exact:
  "computeDamageResultsIn exactArith config population rnd
     = computeDamageResults config population rnd"
  by (simp add: computeDamageResultsIn_def computeDamageResults_def nodeDamageIn_exact)

lemma triggerEarthquakeIn_exact:
  "triggerEarthquakeIn exactArith population config scores rnd sim
     = triggerEarthquake population config scores rnd sim"
  by (simp add: triggerEarthquakeIn_def triggerEarthquake_def computeDamageResultsIn_exact
        exactArith_sel)

text \<open>Every factor of the product is non-negative when rounding keeps the sign.\<close>

lemma fl_nonneg: "keepsSign a \<Longrightarrow> 0 \<le> x \<Longrightarrow> 0 \<le> fl a x"
  by (simp add: keepsSign_def)

lemma vulnerabilityIn_nonneg:
  assumes "keepsSign a"
  shows "0 \<le> vulnerabilityIn a meta"
proof -
  have c: "0 \<le> fl a 1.4" "0 \<le> fl a 1.6" "0 \<le> fl a 1.3" "0 \<le> fl a 1.2"
    using assms by (simp_all add: fl_nonneg)
  define v2 where "v2 = (if structureType meta = ahsap then fl a 1.6
                          else if structureType meta = yigma then fl a 1.4 else 1)"
  have v2: "0 \<le> v2" using c by (simp add: v2_def)
  define v3 where "v3 = (if yearBuilt meta < 1980 then fl a (v2 * fl a 1.3) else v2)"
  have v3: "0 \<le> v3" using v2 c assms by (simp add: v3_def fl_nonneg)
  have "vulnerabilityIn a meta = (if floors meta > 4 then fl a (v3 * fl a 1.2) else v3)"
    by (simp add: vulnerabilityIn_def v3_def v2_def Let_def)
  then show ?thesis using v3 c assms by (simp add: fl_nonneg)
qed

lemma damageDistanceFactorIn_nonneg:
  "keepsSign a \<Longrightarrow> 0 \<le> damageDistanceFactorIn a config node"
  using fl_nonneg[of a "0.2"] by (simp add: damageDistanceFactorIn_def Let_def max_def)

lemma legacyDistanceFactorIn_nonneg:
  "keepsSign a \<Longrightarrow> 0 \<le> legacyDistanceFactorIn a config node"
  using fl_nonneg[of a "0.2"] by (simp add: legacyDistanceFactorIn_def Let_def max_def)

lemma rawDamageIn_nonneg:
  assumes "keepsSign a" "0 \<le> intensity config" "0 \<le> r"
  shows "0 \<le> rawDamageIn a config node r"
proof -
  note k = fl_nonneg[OF assms(1)]
  have p1: "0 \<le> fl a (intensity config * 25)" using assms(2) by (intro k) simp
  have p2: "0 \<le> fl a (fl a (intensity config * 25) * damageDistanceFactorIn a config node)"
    by (rule k[OF mult_nonneg_nonneg[OF p1 damageDistanceFactorIn_nonneg[OF assms(1)]]])
  have p3: "0 \<le> fl a (fl a (fl a (intensity config * 25) * damageDistanceFactorIn a config node)
                          * vulnerabilityIn a (metadata node))"
    by (rule k[OF mult_nonneg_nonneg[OF p2 vulnerabilityIn_nonneg[OF assms(1)]]])
  have "0 \<le> fl a (r * 0.5)" using assms(3) by (intro k) simp
  then have j: "0 \<le> fl a (0.5 + fl a (r * 0.5))" by (intro k) simp
  show ?thesis unfolding rawDamageIn_def by (rule k[OF mult_nonneg_nonneg[OF p3 j]])
qed

lemma nodeDamageIn_range:
  assumes "keepsSign a" "0 \<le> intensity config" "0 \<le> r"
  shows "0 \<le> nodeDamageIn a config node r \<and> nodeDamageIn a config node r \<le> 100"
  using mathRound_nonneg[OF rawDamageIn_nonneg[OF assms, of node]]
  by (simp add: nodeDamageIn_def Let_def)

lemma legacyNodeDamageIn_range:
  assumes "keepsSign a" "0 \<le> intensity config" "0 \<le> r"
  shows "0 \<le> legacyNodeDamageIn a config node r \<and> legacyNodeDamageIn a config node r \<le> 70"
proof -
  note k = fl_nonneg[OF assms(1)]
  have p1: "0 \<le> fl a (intensity config * 30)" using assms(2) by (intro k) simp
  have p2: "0 \<le> fl a (fl a (intensity config * 30) * legacyDistanceFactorIn a config node)"
    by (rule k[OF mult_nonneg_nonneg[OF p1 legacyDistanceFactorIn_nonneg[OF assms(1)]]])
  have "0 \<le> fl a (r * 1.0)" using assms(3) by (intro k) simp
  then have v: "0 \<le> fl a (0.5 + fl a (r * 1.0))" by (intro k) simp
  have "0 \<le> fl a (fl a (fl a (intensity config * 30) * legacyDistanceFactorIn a config node)
                      * fl a (0.5 + fl a (r * 1.0)))"
    by (rule k[OF mult_nonneg_nonneg[OF p2 v]])
  from mathRound_nonneg[OF this] show ?thesis
    by (simp add: legacyNodeDamageIn_def Let_def)
qed

text \<open>What a loop of \<^verbatim>\<open>set\<close> calls leaves in a map.\<close>

lemma fold_update_values:
  assumes "\<forall>(i, node) \<in> set ixs. P (f i node)"
    and "\<forall>(k, v) \<in> set m. P v"
  shows "\<forall>(k, v) \<in> set (fold (\<lambda>(i, node) m. AList.update (g node) (f i node) m) ixs m). P v"
  using assms
proof (induction ixs arbitrary: m)
  case Nil
  then show ?case by simp
next
  case (Cons p ixs)
  obtain i node where p: "p = (i, node)" by (cases p)
  have "\<forall>(k, v) \<in> set (AList.update (g node) (f i node) m). P v"
    using Cons.prems p by (auto dest!: in_set_updateD)
  from Cons.IH[OF _ this] Cons.prems(1) show ?case by (simp add: p)
qed

lemma fold_update_other:
  "k \<notin> (\<lambda>x. g (snd x)) ` set ixs \<Longrightarrow>
   map_of (fold (\<lambda>(i, node) m. AList.update (g node) (f i node) m) ixs m) k = map_of m k"
proof (induction ixs arbitrary: m)
  case Nil
  then show ?case by simp
next
  case (Cons q ixs)
  obtain j nq where q: "q = (j, nq)" by (cases q)
  from Cons.prems q have "g nq \<noteq> k" by auto
  with Cons show ?case by (simp add: q update_conv')
qed

lemma fold_update_at:
  assumes "distinct (map (\<lambda>x. g (snd x)) ixs)" "(i, node) \<in> set ixs"
  shows "map_of (fold (\<lambda>(i, node) m. AList.update (g node) (f i node) m) ixs m) (g node)
           = Some (f i node)"
  using assms
proof (induction ixs arbitrary: m)
  case Nil
  then show ?case by simp
next
  case (Cons p ixs)
  obtain i0 node0 where p: "p = (i0, node0)" by (cases p)
  from Cons.prems(1) p have dist: "distinct (map (\<lambda>x. g (snd x)) ixs)"
    and notin: "g node0 \<notin> (\<lambda>x. g (snd x)) ` set ixs" by auto
  show ?case
  proof (cases "(i, node) \<in> set ixs")
    case True
    from Cons.IH[OF dist True] show ?thesis by (simp add: p)
  next
    case False
    with Cons.prems(2) p have e: "i0 = i" "node0 = node" by auto
    from notin have "g node \<notin> (\<lambda>x. g (snd x)) ` set ixs" unfolding e .
    from fold_update_other[OF this, of f] show ?thesis by (simp add: p e update_conv')
  qed
qed

lemma computeDamageResultsIn_range:
  assumes "keepsSign a" "0 \<le> intensity config" "unitDraws rnd (length population)"
  shows "\<forall>(k, v) \<in> set (computeDamageResultsIn a config population rnd). 0 \<le> v \<and> v \<le> 100"
  unfolding computeDamageResultsIn_def
proof (rule fold_update_values)
  show "\<forall>(i, node) \<in> set (enumerate 0 population).
          0 \<le> nodeDamageIn a config node (rnd i) \<and> nodeDamageIn a config node (rnd i) \<le> 100"
  proof (clarify)
    fix i node assume "(i, node) \<in> set (enumerate 0 population)"
    then have "i < length population" by (auto dest!: enumerate_index_bound)
    then have "0 \<le> rnd i" using assms(3) by (simp add: unitDraws_def)
    from nodeDamageIn_range[OF assms(1,2) this]
    show "0 \<le> nodeDamageIn a config node (rnd i) \<and> nodeDamageIn a config node (rnd i) \<le> 100" .
  qed
qed simp

lemma computeDamageResultsIn_at:
  assumes "distinct (map node_id population)" "i < length population"
  shows "map_of (computeDamageResultsIn a config population rnd) (node_id (population ! i))
           = Some (nodeDamageIn a config (population ! i) (rnd i))"
proof -
  have m: "(i, population ! i) \<in> set (enumerate 0 population)"
    using assms(2) by (simp add: in_set_enumerate_eq)
  have "map (\<lambda>x. node_id (snd x)) (enumerate 0 population)
          = map node_id (map snd (enumerate 0 population))"
    by (simp only: map_map comp_def)
  then have d: "distinct (map (\<lambda>x. node_id (snd x)) (enumerate 0 population))"
    using assms(1) by (simp only: map_snd_enumerate)
  from fold_update_at[OF d m, of "\<lambda>i node. nodeDamageIn a config node (rnd i)" "[]"]
  show ?thesis by (simp add: computeDamageResultsIn_def)
qed

text \<open>
  The accumulator does not decrease either when the engine computes the deltas in
  doubles.
\<close>

lemma engine_deltas_in_doubles_never_decrease:
  assumes "keepsSign a" "0 \<le> intensity config" "unitDraws rnd (length population)"
    and "map_of (buildingDamages s) k = Some d"
  shows "\<exists>d'. map_of (buildingDamages
                  (applyEarthquakeDamage (computeDamageResultsIn a config population rnd) s)) k
                = Some d'
             \<and> earthquakeDamage d \<le> earthquakeDamage d'"
proof -
  have "\<forall>(k0, v) \<in> set (computeDamageResultsIn a config population rnd). 0 \<le> v"
    using computeDamageResultsIn_range[OF assms(1-3)] by auto
  from applyEarthquakeDamage_monotone[OF this assms(4)] show ?thesis by blast
qed

text \<open>
  In doubles a masonry building of 1970 at the epicentre of an earthquake of intensity 2
  gets the delta 45 for the draw 0: \<^verbatim>\<open>1.4 * 1.3\<close> is \<^verbatim>\<open>1.8199999999999998\<close> and the
  product \<^verbatim>\<open>45.49999999999999\<close>. In exact arithmetic the product is 45.5 and the delta
  46.
\<close>

lemma demoNode3_vulnerability:
  "vulnerabilityIn binary64 (metadata demoNode3) = 4098275660907151 / 2251799813685248"
  by (simp add: vulnerabilityIn_def demoNode3_def binary64_eval)

lemma demoNode3_distanceFactor: "damageDistanceFactorIn binary64 demoConfig demoNode3 = 1"
  by (simp add: damageDistanceFactorIn_def demoNode3_def demoConfig_def binary64_eval)

lemma demoNode3_rawDamage:
  "rawDamageIn binary64 demoConfig demoNode3 0 = 6403555720167423 / 140737488355328"
  unfolding rawDamageIn_def demoNode3_vulnerability demoNode3_distanceFactor
  by (simp add: demoConfig_def binary64_eval)

lemma demoNode3_nodeDamage:
  "nodeDamageIn binary64 demoConfig demoNode3 0 = 45"
  "nodeDamageIn exactArith demoConfig demoNode3 0 = 46"
  unfolding nodeDamageIn_def demoNode3_rawDamage
  by (simp_all add: mathRound_def rawDamageIn_def vulnerabilityIn_def damageDistanceFactorIn_def
        demoNode3_def demoConfig_def exactArith_sel)

lemma demoNode3_damageResults:
  "computeDamageResultsIn binary64 demoConfig [demoNode3] (\<lambda>_. 0) = [(''node-3'', 45)]"
  by (simp add: computeDamageResultsIn_def demoNode3_nodeDamage) (simp add: demoNode3_def)

text \<open>
  In the older revision a building at the epicentre of an earthquake of intensity 2 gets
  the delta 70 for the draw 0.75; every operation of the line is exact on these values.
\<close>

lemma nodeA_legacy_distanceFactor: "legacyDistanceFactorIn binary64 demoConfig nodeA = 1"
  by (simp add: legacyDistanceFactorIn_def nodeA_def demoConfig_def binary64_eval)

lemma nodeA_legacyNodeDamage: "legacyNodeDamageIn binary64 demoConfig nodeA (3 / 4) = 70"
  unfolding legacyNodeDamageIn_def nodeA_legacy_distanceFactor
  by (simp add: demoConfig_def binary64_eval mathRound_def)

text \<open>
  C5, as stated, fails. In \<^verbatim>\<open>src/lib/simulator/index.ts\<close> the scale is 30 and the cap
  is 70: the building above gets 70 where the rounded product clamped to \<open>[0, 100]\<close> is
  75. In the current simulator the product is a product of doubles: the masonry building
  of 1970 gets 45 where the rounded product of the real numbers is 46.
\<close>

theorem damage_delta_counterexample:
  "legacyNodeDamageIn binary64 demoConfig nodeA (3 / 4) = 70
   \<and> specDelta (intensity demoConfig * 30 * legacyDistanceFactorIn binary64 demoConfig nodeA
                 * (0.5 + 3 / 4 * 1.0)) = 75
   \<and> nodeDamageIn binary64 demoConfig demoNode3 0 = 45
   \<and> specDelta (intensity demoConfig * 25 * damageDistanceFactor demoConfig demoNode3
                 * vulnerabilityOf (metadata demoNode3) * (0.5 + 0 * 0.5)) = 46"
proof -
  have df: "damageDistanceFactor demoConfig demoNode3 = 1"
    by (simp add: damageDistanceFactor_def demoConfig_def demoNode3_def)
  have v: "vulnerabilityOf (metadata demoNode3) = 91 / 50"
    by (simp add: vulnerabilityOf_def demoNode3_def)
  show ?thesis
    unfolding df v nodeA_legacyNodeDamage nodeA_legacy_distanceFactor demoNode3_nodeDamage
      demo_intensity
    by (simp add: specDelta_def mathRound_def)
qed

text \<open>
  C5, amended. For a triggered earthquake of non-negative intensity and every building
  of the population (whose ids are distinct), the delta stored in the damage map is
  \<^verbatim>\<open>Math.round\<close> of the product
  \<open>intensity * 25 * distanceFactor * vulnerability * (0.5 + r * 0.5)\<close> as the doubles of
  the program compute it, factor by factor from the left, capped at 100; that is the
  rounded product clamped to \<open>[0, 100]\<close>, and every delta of the map lies in
  \<open>[0, 100]\<close>. In the revision of \<^verbatim>\<open>src/lib/simulator/index.ts\<close> the delta is
  \<^verbatim>\<open>Math.round\<close> of the product \<open>intensity * 30 * distanceFactor * (0.5 + r * 1.0)\<close> of
  doubles, capped at 70, and lies in \<open>[0, 70]\<close>. \<open>r\<close> is the building's draw of
  \<^verbatim>\<open>Math.random()\<close>. This holds in every arithmetic whose rounding keeps the sign, as
  that of the doubles does (\<open>keepsSign_binary64\<close>).
\<close>

theorem damage_delta_in_doubles:
  assumes "keepsSign a"
    and "0 \<le> intensity config"
    and "unitDraws rnd (length population)"
    and "distinct (map node_id population)"
    and "i < length population"
    and "0 \<le> r"
  shows "(let product =
            fl a (fl a (fl a (fl a (intensity config * 25)
                               * damageDistanceFactorIn a config (population ! i))
                         * vulnerabilityIn a (metadata (population ! i)))
                   * fl a (0.5 + fl a (rnd i * 0.5)))
          in map_of (computeDamageResultsIn a config population rnd) (node_id (population ! i))
               = Some (min 100 (mathRound product))
             \<and> min 100 (mathRound product) = specDelta product)
       \<and> (\<forall>k v. map_of (computeDamageResultsIn a config population rnd) k = Some v
             \<longrightarrow> 0 \<le> v \<and> v \<le> 100)
       \<and> (let product =
              fl a (fl a (fl a (intensity config * 30) * legacyDistanceFactorIn a config node)
                     * fl a (0.5 + fl a (r * 1.0)))
            in legacyNodeDamageIn a config node r = min 70 (mathRound product)
               \<and> 0 \<le> legacyNodeDamageIn a config node r
               \<and> legacyNodeDamageIn a config node r \<le> 70)"
proof (intro conjI)
  have ri: "0 \<le> rnd i" using assms(3,5) by (simp add: unitDraws_def)
  have "0 \<le> mathRound (rawDamageIn a config (population ! i) (rnd i))"
    by (rule mathRound_nonneg[OF rawDamageIn_nonneg[OF assms(1,2) ri]])
  then have "min 100 (mathRound (rawDamageIn a config (population ! i) (rnd i)))
               = specDelta (rawDamageIn a config (population ! i) (rnd i))"
    by (simp add: specDelta_def)
  with computeDamageResultsIn_at[OF assms(4,5), of a config rnd]
  show "let product =
            fl a (fl a (fl a (fl a (intensity config * 25)
                               * damageDistanceFactorIn a config (population ! i))
                         * vulnerabilityIn a (metadata (population ! i)))
                   * fl a (0.5 + fl a (rnd i * 0.5)))
          in map_of (computeDamageResultsIn a config population rnd) (node_id (population ! i))
               = Some (min 100 (mathRound product))
             \<and> min 100 (mathRound product) = specDelta product"
    by (simp add: nodeDamageIn_def rawDamageIn_def Let_def)
  have "\<forall>(k, v) \<in> set (computeDamageResultsIn a config population rnd). 0 \<le> v \<and> v \<le> 100"
    by (rule computeDamageResultsIn_range[OF assms(1-3)])
  then show "\<forall>k v. map_of (computeDamageResultsIn a config population rnd) k = Some v
             \<longrightarrow> 0 \<le> v \<and> v \<le> 100"
    by (auto dest: map_of_SomeD)
  from legacyNodeDamageIn_range[OF assms(1,2,6), of node]
  show "let product =
              fl a (fl a (fl a (intensity config * 30) * legacyDistanceFactorIn a config node)
                     * fl a (0.5 + fl a (r * 1.0)))
            in legacyNodeDamageIn a config node r = min 70 (mathRound product)
               \<and> 0 \<le> legacyNodeDamageIn a config node r
               \<and> legacyNodeDamageIn a config node r \<le> 70"
    by (simp add: legacyNodeDamageIn_def Let_def)
qed

theorem damage_delta_in_doubles_witness:
  "keepsSign binary64
   \<and> 0 \<le> intensity demoConfig
   \<and> unitDraws (\<lambda>_. 0) (length [demoNode3])
   \<and> distinct (map node_id [demoNode3])
   \<and> 0 < length [demoNode3]
   \<and> (0::real) \<le> 3 / 4
   \<and> map_of (computeDamageResultsIn binary64 demoConfig [demoNode3] (\<lambda>_. 0)) ''node-3'' = Some 45
   \<and> (0::real) \<le> 45 \<and> (45::real) \<le> 100
   \<and> (45::real) = specDelta (6403555720167423 / 140737488355328)
   \<and> legacyNodeDamageIn binary64 demoConfig nodeA (3 / 4) = 70"
proof -
  have a: "0 \<le> intensity demoConfig" by (simp add: demoConfig_def)
  have b: "unitDraws (\<lambda>_. 0) (length [demoNode3])" by (simp add: unitDraws_def)
  have c: "distinct (map node_id [demoNode3])" by simp
  have d: "0 < length [demoNode3]" by simp
  have e: "(0::real) \<le> 3 / 4" by simp
  have f: "specDelta (6403555720167423 / 140737488355328) = 45"
    by (simp add: specDelta_def mathRound_def)
  from damage_delta_in_doubles[OF keepsSign_binary64 a b c d e, of nodeA]
    keepsSign_binary64 a b c e f
  show ?thesis
    by (simp add: demoNode3_damageResults nodeA_legacyNodeDamage)
qed


section \<open>Properties of the fatigue tracker\<close>

lemma enumerate_30: "[0..<30] = [0,1,2,3,4,5,6,7,8,9,10,11,12,13,14,15,16,17,18,19,20,21,22,23,24,25,26,27,28,29]"
  by (simp add: upt_rec)

text \<open>The regression, from the values of its intermediate variables.\<close>

lemma linearRegression_eq:
  assumes "2 \<le> length vals"
    and "accumulate a (\<lambda>(i, y). real i) (enumerate 0 vals) = sumX"
    and "accumulate a (\<lambda>(i, y). y) (enumerate 0 vals) = sumY"
    and "accumulate a (\<lambda>(i, y). fl a (real i * y)) (enumerate 0 vals) = sumXY"
    and "accumulate a (\<lambda>(i, y). fl a (real i * real i)) (enumerate 0 vals) = sumX2"
    and "fl a (sumX / real (length vals)) = meanX"
    and "fl a (sumY / real (length vals)) = meanY"
    and "fl a (sumXY - fl a (fl a (real (length vals) * meanX) * meanY)) = numerator"
    and "fl a (sumX2 - fl a (fl a (real (length vals) * meanX) * meanX)) = denominator"
    and "denominator \<noteq> 0"
    and "fl a (numerator / denominator) = sl"
    and "fl a (meanY - fl a (sl * meanX)) = intercept"
    and "accumulate a (\<lambda>(i, y). pow2 a (fl a (y - fl a (fl a (sl * real i) + intercept))))
           (enumerate 0 vals) = ssRes"
    and "accumulate a (\<lambda>(i, y). pow2 a (fl a (y - meanY))) (enumerate 0 vals) = ssTot"
  shows "linearRegression a vals =
           \<lparr> slope = sl,
             rSquared = max 0 (if ssTot > 0 then fl a (1 - fl a (ssRes / ssTot)) else 0) \<rparr>"
proof -
  have n: "\<not> length vals < 2" using assms(1) by simp
  show ?thesis
    unfolding linearRegression_def Let_def assms(2-5) assms(6-7) assms(8-9) assms(11) assms(12)
      assms(13-14)
    using n assms(10) by simp
qed

text \<open>
  In exact arithmetic: the alternating history has a slope below the threshold and a low
  R-squared; the history falling by 0.01 a slope below the threshold and R-squared 1; the
  history falling by 0.005 a slope of exactly \<open>- 0.005\<close>, which is not below the
  threshold.
\<close>

lemmas exact_regression_eval = linearRegression_def accumulate_def exactArith_sel Let_def
  enumerate_eq_zip enumerate_30 power2_eq_square

lemma alternating_regression:
  "linearRegression exactArith alternatingHistory = \<lparr> slope = - 12 / 899, rSquared = 3 / 899 \<rparr>"
  by (simp add: exact_regression_eval alternatingHistory_def)

lemma falling_regression:
  "linearRegression exactArith fallingHistory = \<lparr> slope = - 1 / 100, rSquared = 1 \<rparr>"
  by (simp add: exact_regression_eval fallingHistory_def)

lemma slowExact_regression:
  "linearRegression exactArith slowHistoryExact = \<lparr> slope = - 1 / 200, rSquared = 1 \<rparr>"
  by (simp add: exact_regression_eval slowHistoryExact_def)

text \<open>
  In doubles the history falling by 0.005 has the slope \<^verbatim>\<open>-0.005000000000000081\<close>, which
  is below the threshold, the double \<^verbatim>\<open>-0.005\<close>.
\<close>

lemma slowHistory_eq:
  "slowHistory =
     [5,
      5623870034678907 / 1125899906842624,
      2809120267572347 / 562949953421312,
      5612611035610481 / 1125899906842624,
      1401745384019067 / 281474976710656,
      2800676018271027 / 562949953421312,
      5595722537007841 / 1125899906842624,
      1397523259368407 / 281474976710656,
      5584463537939415 / 1125899906842624,
      2789417019202601 / 562949953421312,
      5573204538870989 / 1125899906842624,
      695946879917097 / 140737488355328,
      5561945539802563 / 1125899906842624,
      5556316040268349 / 1125899906842624,
      693835817591767 / 140737488355328,
      5545057041199923 / 1125899906842624,
      2769713770832855 / 562949953421312,
      5533798042131497 / 1125899906842624,
      1382042135649321 / 281474976710656,
      5522539043063071 / 1125899906842624,
      2758454771764429 / 562949953421312,
      1377820010998661 / 281474976710656,
      5505650544460431 / 1125899906842624,
      2750010522463109 / 562949953421312,
      5494391545392005 / 1125899906842624,
      39 / 8,
      5483132546323579 / 1125899906842624,
      2738751523394683 / 562949953421312,
      5471873547255153 / 1125899906842624,
      1366561011930235 / 281474976710656]"
  unfolding slowHistory_def enumerate_30 by (simp add: binary64_eval)

lemmas slow_eval = accumulate_def enumerate_eq_zip enumerate_30 binary64_eval

lemma slow_sumX:
  "accumulate binary64 (\<lambda>(i, y). real i) (enumerate 0 slowHistory) = 435"
  unfolding slowHistory_eq by (simp add: slow_eval)

lemma slow_sumY:
  "accumulate binary64 (\<lambda>(i, y). y) (enumerate 0 slowHistory) = 5201129804031591 / 35184372088832"
  unfolding slowHistory_eq by (simp add: slow_eval)

lemma slow_sumXY:
  "accumulate binary64 (\<lambda>(i, y). fl binary64 (real i * y)) (enumerate 0 slowHistory)
     = 4688812361069363 / 2199023255552"
  unfolding slowHistory_eq by (simp add: slow_eval)

lemma slow_sumX2:
  "accumulate binary64 (\<lambda>(i, y). fl binary64 (real i * real i)) (enumerate 0 slowHistory)
     = 8555"
  unfolding slowHistory_eq by (simp add: slow_eval)

lemma slow_length: "length slowHistory = 30"
  by (simp add: slowHistory_def)

lemma slow_means:
  "fl binary64 (435 / real (length slowHistory)) = 29 / 2"
  "fl binary64 (5201129804031591 / 35184372088832 / real (length slowHistory)) = 2773935895483515 / 562949953421312"
  unfolding slow_length by (simp_all add: binary64_eval)

lemma slow_numerator:
  "fl binary64 (4688812361069363 / 2199023255552
      - fl binary64 (fl binary64 (real (length slowHistory) * (29 / 2)) * (2773935895483515 / 562949953421312)))
     = -12355761917133 / 1099511627776"
  unfolding slow_length by (simp add: binary64_eval)

lemma slow_denominator:
  "fl binary64 (8555
      - fl binary64 (fl binary64 (real (length slowHistory) * (29 / 2)) * (29 / 2)))
     = 4495 / 2"
  unfolding slow_length by (simp add: binary64_eval)

lemma slow_slope:
  "fl binary64 ((-12355761917133 / 1099511627776) / (4495 / 2)) = -720575940379291 / 144115188075855872"
  by (simp add: binary64_eval)

lemma slow_intercept:
  "fl binary64 (2773935895483515 / 562949953421312 - fl binary64 ((-720575940379291 / 144115188075855872) * (29 / 2))) = 2814749767106561 / 562949953421312"
  by (simp add: binary64_eval)

lemma slow_ssRes:
  "accumulate binary64
     (\<lambda>(i, y). pow2 binary64 (fl binary64 (y - fl binary64 (fl binary64 ((-720575940379291 / 144115188075855872) * real i) + 2814749767106561 / 562949953421312))))
     (enumerate 0 slowHistory) = 39 / 1267650600228229401496703205376"
  unfolding slowHistory_eq by (simp add: slow_eval)

lemma slow_ssTot:
  "accumulate binary64 (\<lambda>(i, y). pow2 binary64 (fl binary64 (y - 2773935895483515 / 562949953421312)))
     (enumerate 0 slowHistory) = 2024368032503037 / 36028797018963968"
  unfolding slowHistory_eq by (simp add: slow_eval)

lemma slow_regression:
  "linearRegression binary64 slowHistory = \<lparr> slope = -720575940379291 / 144115188075855872, rSquared = 1 \<rparr>"
proof -
  have l: "2 \<le> length slowHistory" by (simp add: slow_length)
  have d: "(4495 / 2 :: real) \<noteq> 0" by simp
  have r: "max 0 (if (0::real) < 2024368032503037 / 36028797018963968
                  then fl binary64 (1 - fl binary64 ((39 / 1267650600228229401496703205376) / (2024368032503037 / 36028797018963968))) else 0) = 1"
    by (simp add: binary64_eval)
  from linearRegression_eq[OF l slow_sumX slow_sumY slow_sumXY slow_sumX2 slow_means
         slow_numerator slow_denominator d slow_slope slow_intercept slow_ssRes slow_ssTot]
  show ?thesis unfolding r .
qed

lemma calculateFatigueIndicator_warning:
  "hasWarning (calculateFatigueIndicator a nodeId baseline current) \<longleftrightarrow>
      length (frequencyHistory baseline) \<ge> 30
      \<and> slope (linearRegression a (frequencyHistory baseline)) < - fl a 0.005
      \<and> rSquared (linearRegression a (frequencyHistory baseline)) > fl a 0.3"
  by (auto simp: calculateFatigueIndicator_def Let_def minSamplesForFatigue_def
        fatigueThresholdSlope_def minTrendConfidence_def)

text \<open>
  C7. For every building and every history of frequency samples, the indicator's
  \<open>hasWarning\<close> is true if and only if the history holds at least 30 samples, the
  regression slope is below the threshold \<^verbatim>\<open>-0.005\<close> and R-squared is above the
  threshold \<^verbatim>\<open>0.3\<close>; slope and R-squared are those that the regression computes, in
  the arithmetic of the program, and the thresholds are the doubles that the two
  literals denote. So the flag is never true with fewer than 30 samples, and never true
  when R-squared is at most the threshold, however negative the slope.
\<close>

theorem fatigue_warning_iff:
  "(hasWarning (calculateFatigueIndicator a nodeId baseline current) \<longleftrightarrow>
      length (frequencyHistory baseline) \<ge> 30
      \<and> slope (linearRegression a (frequencyHistory baseline)) < - fl a 0.005
      \<and> rSquared (linearRegression a (frequencyHistory baseline)) > fl a 0.3)
   \<and> (length (frequencyHistory baseline) < 30
        \<longrightarrow> \<not> hasWarning (calculateFatigueIndicator a nodeId baseline current))
   \<and> (rSquared (linearRegression a (frequencyHistory baseline)) \<le> fl a 0.3
        \<longrightarrow> \<not> hasWarning (calculateFatigueIndicator a nodeId baseline current))"
  using calculateFatigueIndicator_warning[of a nodeId baseline current] by auto

theorem fatigue_warning_iff_witness:
  "(length alternatingHistory \<ge> 30
      \<and> slope (linearRegression exactArith alternatingHistory) < - fl exactArith 0.005
      \<and> rSquared (linearRegression exactArith alternatingHistory) \<le> fl exactArith 0.3
      \<and> \<not> hasWarning (calculateFatigueIndicator exactArith ''node-1''
             \<lparr> frequencyHistory = alternatingHistory, baselineFrequency = Some 3,
               isBaselineSet = True \<rparr> 1))
   \<and> (length [5 :: real] < 30
      \<and> \<not> hasWarning (calculateFatigueIndicator binary64 ''node-1''
             \<lparr> frequencyHistory = [5], baselineFrequency = None, isBaselineSet = False \<rparr> 5))
   \<and> hasWarning (calculateFatigueIndicator exactArith ''node-1''
             \<lparr> frequencyHistory = fallingHistory, baselineFrequency = Some (981 / 200),
               isBaselineSet = True \<rparr> (471 / 100))
   \<and> (length slowHistory \<ge> 30
      \<and> slope (linearRegression binary64 slowHistory) < - fl binary64 0.005
      \<and> rSquared (linearRegression binary64 slowHistory) > fl binary64 0.3
      \<and> hasWarning (calculateFatigueIndicator binary64 ''node-1''
             \<lparr> frequencyHistory = slowHistory, baselineFrequency = Some 5,
               isBaselineSet = True \<rparr> (1366561011930235 / 281474976710656)))"
proof -
  have l: "length alternatingHistory = 30" "length fallingHistory = 30"
    by (simp_all add: alternatingHistory_def fallingHistory_def)
  from fatigue_warning_iff[of exactArith "''node-1''"
         "\<lparr> frequencyHistory = alternatingHistory, baselineFrequency = Some 3, isBaselineSet = True \<rparr>" 1]
       fatigue_warning_iff[of binary64 "''node-1''"
         "\<lparr> frequencyHistory = [5], baselineFrequency = None, isBaselineSet = False \<rparr>" 5]
       fatigue_warning_iff[of exactArith "''node-1''"
         "\<lparr> frequencyHistory = fallingHistory, baselineFrequency = Some (981 / 200), isBaselineSet = True \<rparr>"
         "471 / 100"]
       fatigue_warning_iff[of binary64 "''node-1''"
         "\<lparr> frequencyHistory = slowHistory, baselineFrequency = Some 5, isBaselineSet = True \<rparr>"
         "1366561011930235 / 281474976710656"]
  show ?thesis
    by (simp add: l slow_length alternating_regression falling_regression slow_regression
          exactArith_sel binary64_literals)
qed

text \<open>
  On the history that falls by 0.005 per sample the flag depends on the arithmetic: it is
  raised in doubles and not in exact arithmetic.
\<close>

lemma slow_warning_depends_on_rounding:
  "hasWarning (calculateFatigueIndicator binary64 nodeId
      \<lparr> frequencyHistory = slowHistory, baselineFrequency = b, isBaselineSet = s \<rparr> current)
   \<and> \<not> hasWarning (calculateFatigueIndicator exactArith nodeId
      \<lparr> frequencyHistory = slowHistoryExact, baselineFrequency = b, isBaselineSet = s \<rparr> current)"
  by (simp add: calculateFatigueIndicator_warning slow_length slow_regression slowExact_regression
        exactArith_sel binary64_literals)

text \<open>The same for the indicator that \<^const>\<open>update_tracker\<close> returns.\<close>

lemma update_tracker_warning:
  "hasWarning (fst (update_tracker a nodeId freq tracker)) \<longleftrightarrow>
     (let h0 = (case map_of (nodeBaselines tracker) nodeId of None \<Rightarrow> [] | Some b \<Rightarrow> frequencyHistory b);
          h = trimHistory (h0 @ [freq])
      in length h \<ge> 30 \<and> slope (linearRegression a h) < - fl a 0.005
         \<and> rSquared (linearRegression a h) > fl a 0.3)"
proof -
  obtain b2 where b2: "fst (update_tracker a nodeId freq tracker) = calculateFatigueIndicator a nodeId b2 freq"
    and h: "frequencyHistory b2 = trimHistory ((case map_of (nodeBaselines tracker) nodeId of
                 None \<Rightarrow> [] | Some b \<Rightarrow> frequencyHistory b) @ [freq])"
    by (cases "map_of (nodeBaselines tracker) nodeId") (auto simp: update_tracker_def Let_def)
  show ?thesis
    using calculateFatigueIndicator_warning[of a nodeId b2 freq] by (simp add: b2 h Let_def)
qed


section \<open>Properties of the reading synthesizer and the trigger\<close>

lemma damaged_damageOf:
  "damageOf damagedSimulator ''node-1'' = 100" "damageOf damagedSimulator ''node-2'' = 40"
  "damageOf damagedSimulator ''node-3'' = 0"
  by (simp_all add: damageOf_def damagedSimulator_def updateDamages_def idleSimulator_def)

text \<open>
  C8. For every building and every damage value \<open>d\<close> that the synthesizer holds for it
  (0 when it holds none), the idle reading is built around the natural frequency
  \<open>1.0 + 3.5 * max(0, 1 - d/100)\<close>: the spectrum has its bump there, and the reading's
  frequency is that value plus a jitter of \<open>0.2 * r\<close>, so within 0.2 Hz above it for a
  draw \<open>r\<close> in \<open>[0, 1)\<close>. The natural frequency is 4.5 Hz at damage 0, falls linearly
  with the damage, and is 1.0 Hz from damage 100 on.
\<close>

theorem idle_frequency_hysteresis:
  "frequency (generateIdleReading sim now rnd nodeId)
      = 1.0 + 3.5 * max 0 (1 - damageOf sim nodeId / 100) + rnd 23 * 0.2
   \<and> fftSpectrum (generateIdleReading sim now rnd nodeId)
      = generateFFTSpectrum (\<lambda>i. rnd (3 + i)) (1.0 + 3.5 * max 0 (1 - damageOf sim nodeId / 100)) 0.8 0.3
   \<and> signalType (generateIdleReading sim now rnd nodeId) = idle
   \<and> (0 \<le> rnd 23 \<and> rnd 23 < 1 \<longrightarrow>
         1.0 + 3.5 * max 0 (1 - damageOf sim nodeId / 100) \<le> frequency (generateIdleReading sim now rnd nodeId)
         \<and> frequency (generateIdleReading sim now rnd nodeId)
             < 1.0 + 3.5 * max 0 (1 - damageOf sim nodeId / 100) + 0.2)
   \<and> (damageOf sim nodeId = 0 \<longrightarrow> 1.0 + 3.5 * max 0 (1 - damageOf sim nodeId / 100) = 4.5)
   \<and> (damageOf sim nodeId \<ge> 100 \<longrightarrow> 1.0 + 3.5 * max 0 (1 - damageOf sim nodeId / 100) = 1.0)
   \<and> (0 \<le> damageOf sim nodeId \<and> damageOf sim nodeId \<le> 100 \<longrightarrow>
         1.0 + 3.5 * max 0 (1 - damageOf sim nodeId / 100) = 4.5 - 0.035 * damageOf sim nodeId)"
  by (auto simp: generateIdleReading_def baseFrequencyOf_def Let_def max_def diff_divide_distrib)

theorem idle_frequency_hysteresis_witness:
  "(0::real) \<le> 1 / 2 \<and> (1 / 2 :: real) < 1
   \<and> damageOf damagedSimulator ''node-3'' = 0
   \<and> frequency (generateIdleReading damagedSimulator 0 (\<lambda>_. 1 / 2) ''node-3'') = 4.6
   \<and> damageOf damagedSimulator ''node-1'' \<ge> 100
   \<and> frequency (generateIdleReading damagedSimulator 0 (\<lambda>_. 1 / 2) ''node-1'') = 1.1
   \<and> 0 \<le> damageOf damagedSimulator ''node-2'' \<and> damageOf damagedSimulator ''node-2'' \<le> 100
   \<and> frequency (generateIdleReading damagedSimulator 0 (\<lambda>_. 1 / 2) ''node-2'') = 3.2"
  using idle_frequency_hysteresis[of damagedSimulator 0 "\<lambda>_. 1 / 2" "''node-3''"]
    idle_frequency_hysteresis[of damagedSimulator 0 "\<lambda>_. 1 / 2" "''node-1''"]
    idle_frequency_hysteresis[of damagedSimulator 0 "\<lambda>_. 1 / 2" "''node-2''"]
  by (simp add: damaged_damageOf)

lemma demo_durationMs: "durationMs demoConfig = 5000"
  by (simp add: demoConfig_def)

lemma busySimulator_eq:
  "busySimulator =
     \<lparr> liveReadings = [], earthquakeInterval = Some 0, idleInterval = None, deadNodes = [],
       currentDamages = [],
       intervals = [(0, EarthquakeTick \<lparr> loopConfig = demoConfig, loopTotalScores = [],
                        damageResults = [(''node-1'', 94), (''node-2'', 8)],
                        tickCount = 0, totalTicks = 100 \<rparr>)],
       nextHandle = 1 \<rparr>"
  by (simp add: busySimulator_def triggerEarthquake_def demo_damageResults idleSimulator_def
        Let_def demo_durationMs)

lemma busy_again:
  "triggerEarthquake [demoNode1, demoNode2] demoConfig [] (\<lambda>_. 1 / 2) busySimulator =
     \<lparr> liveReadings = [], earthquakeInterval = Some 1, idleInterval = None, deadNodes = [],
       currentDamages = [],
       intervals = [(0, EarthquakeTick \<lparr> loopConfig = demoConfig, loopTotalScores = [],
                        damageResults = [(''node-1'', 94), (''node-2'', 8)],
                        tickCount = 0, totalTicks = 100 \<rparr>),
                    (1, EarthquakeTick \<lparr> loopConfig = demoConfig, loopTotalScores = [],
                        damageResults = [(''node-1'', 94), (''node-2'', 8)],
                        tickCount = 0, totalTicks = 100 \<rparr>)],
       nextHandle = 2 \<rparr>"
  unfolding busySimulator_eq
  by (simp add: triggerEarthquake_def demo_damageResults Let_def demo_durationMs)

text \<open>
  C9, as stated, fails on the simulator: \<^const>\<open>triggerEarthquake\<close> called while an
  event is in progress computes a damage map again, registers a second tick loop and
  replaces the stored interval handle.
\<close>

theorem trigger_while_active_counterexample:
  "earthquakeInterval busySimulator = Some 0
   \<and> map fst (intervals busySimulator) = [0]
   \<and> triggerEarthquake [demoNode1, demoNode2] demoConfig [] (\<lambda>_. 1 / 2) busySimulator
        \<noteq> busySimulator
   \<and> earthquakeInterval
        (triggerEarthquake [demoNode1, demoNode2] demoConfig [] (\<lambda>_. 1 / 2) busySimulator) = Some 1
   \<and> map fst (intervals
        (triggerEarthquake [demoNode1, demoNode2] demoConfig [] (\<lambda>_. 1 / 2) busySimulator)) = [0, 1]"
  unfolding busy_again by (simp add: busySimulator_eq)

text \<open>
  C9, amended. Calling the dashboard's trigger handler (\<^verbatim>\<open>handleTriggerEarthquake\<close>) of
  a render of the panel that read \<^verbatim>\<open>isEarthquakeActive\<close> as true is a no-op: store,
  simulator and panel state are unchanged and no error is raised. The simulator's own
  \<^verbatim>\<open>triggerEarthquake\<close> has no such guard: in every state, also while an event is in
  progress, it computes a damage map, registers a new tick loop with it under the next
  handle of the timer table, and stores that handle as \<^verbatim>\<open>earthquakeInterval\<close>;
  what is registered under another handle stays registered.
\<close>

theorem trigger_guard_is_in_the_handler:
  "(isEarthquakeActive rendered \<longrightarrow>
      handleTriggerEarthquake a population rendered rEpicenter rIntensity rnd w = Inr w)
   \<and> (let sim' = triggerEarthquakeIn a population config scores rnd sim
      in sim' \<noteq> sim
         \<and> earthquakeInterval sim' = Some (nextHandle sim)
         \<and> nextHandle sim' = nextHandle sim + 1
         \<and> map_of (intervals sim') (nextHandle sim)
             = Some (EarthquakeTick
                 \<lparr> loopConfig = config, loopTotalScores = scores,
                   damageResults = computeDamageResultsIn a config population rnd,
                   tickCount = 0, totalTicks = fl a (durationMs config / 50) \<rparr>)
         \<and> (\<forall>h. h \<noteq> nextHandle sim \<longrightarrow> map_of (intervals sim') h = map_of (intervals sim) h))"
proof (intro conjI impI)
  assume "isEarthquakeActive rendered"
  then show "handleTriggerEarthquake a population rendered rEpicenter rIntensity rnd w = Inr w"
    by (simp add: handleTriggerEarthquake_def)
next
  have "nextHandle (triggerEarthquakeIn a population config scores rnd sim) \<noteq> nextHandle sim"
    by (simp add: triggerEarthquakeIn_def Let_def)
  then have "triggerEarthquakeIn a population config scores rnd sim \<noteq> sim" by auto
  then show "let sim' = triggerEarthquakeIn a population config scores rnd sim
      in sim' \<noteq> sim
         \<and> earthquakeInterval sim' = Some (nextHandle sim)
         \<and> nextHandle sim' = nextHandle sim + 1
         \<and> map_of (intervals sim') (nextHandle sim)
             = Some (EarthquakeTick
                 \<lparr> loopConfig = config, loopTotalScores = scores,
                   damageResults = computeDamageResultsIn a config population rnd,
                   tickCount = 0, totalTicks = fl a (durationMs config / 50) \<rparr>)
         \<and> (\<forall>h. h \<noteq> nextHandle sim \<longrightarrow> map_of (intervals sim') h = map_of (intervals sim) h)"
    unfolding Let_def
    by (simp add: triggerEarthquakeIn_def Let_def update_conv')
qed

theorem trigger_guard_is_in_the_handler_witness:
  "isEarthquakeActive (store busyDashboard)
   \<and> handleTriggerEarthquake binary64 [demoNode1, demoNode2] (store busyDashboard)
        (1 / 2) (1 / 2) (\<lambda>_. 1 / 2) busyDashboard = Inr busyDashboard
   \<and> earthquakeInterval busySimulator = Some 0
   \<and> earthquakeInterval
        (triggerEarthquakeIn exactArith [demoNode1, demoNode2] demoConfig [] (\<lambda>_. 1 / 2)
           busySimulator) = Some 1
   \<and> (0::nat) \<noteq> nextHandle busySimulator
   \<and> map_of (intervals
        (triggerEarthquakeIn exactArith [demoNode1, demoNode2] demoConfig [] (\<lambda>_. 1 / 2)
           busySimulator)) 0 = map_of (intervals busySimulator) 0"
proof -
  have a: "isEarthquakeActive (store busyDashboard)"
    by (simp add: busyDashboard_def setEarthquakeActive_def)
  have n: "nextHandle busySimulator = 1" "earthquakeInterval busySimulator = Some 0"
    by (simp_all add: busySimulator_eq)
  from trigger_guard_is_in_the_handler[where rendered = "store busyDashboard" and a = binary64
         and population = "[demoNode1, demoNode2]" and rEpicenter = "1 / 2"
         and rIntensity = "1 / 2" and rnd = "\<lambda>_. 1 / 2" and w = busyDashboard]
  have 1: "handleTriggerEarthquake binary64 [demoNode1, demoNode2] (store busyDashboard)
        (1 / 2) (1 / 2) (\<lambda>_. 1 / 2) busyDashboard = Inr busyDashboard"
    using a by blast
  from trigger_guard_is_in_the_handler[where a = exactArith
         and population = "[demoNode1, demoNode2]" and rnd = "\<lambda>_. 1 / 2"
         and config = demoConfig and scores = "[]" and sim = busySimulator]
  have 2: "earthquakeInterval
        (triggerEarthquakeIn exactArith [demoNode1, demoNode2] demoConfig [] (\<lambda>_. 1 / 2)
           busySimulator) = Some 1
     \<and> map_of (intervals
        (triggerEarthquakeIn exactArith [demoNode1, demoNode2] demoConfig [] (\<lambda>_. 1 / 2)
           busySimulator)) 0 = map_of (intervals busySimulator) 0"
    unfolding Let_def n by simp
  from a 1 2 n show ?thesis by simp
qed

text \<open>
  A handler whose render read \<^verbatim>\<open>isEarthquakeActive\<close> as false starts an event, whatever
  the store holds by the time of the call.
\<close>

lemma trigger_handler_starts_event:
  assumes "\<not> isEarthquakeActive rendered"
    and "0 \<le> fl a (rEpicenter * real (length population))"
    and "fl a (rEpicenter * real (length population)) < real (length population)"
  shows "\<exists>w'. handleTriggerEarthquake a population rendered rEpicenter rIntensity rnd w = Inr w'
           \<and> isEarthquakeActive (store w')
           \<and> earthquakeInterval (simulator w') = Some (nextHandle (simulator w))
           \<and> map fst (intervals (simulator w'))
               = map fst (AList.update (nextHandle (simulator w)) IdleTick
                            (intervals (simulator w)))"
proof -
  have "\<lfloor>fl a (rEpicenter * real (length population))\<rfloor> < int (length population)"
    using assms(3) by (simp add: floor_less_iff)
  moreover have "0 \<le> \<lfloor>fl a (rEpicenter * real (length population))\<rfloor>"
    using assms(2) by simp
  ultimately show ?thesis using assms(1)
    by (simp add: handleTriggerEarthquake_def Let_def setEarthquakeActive_def
          triggerEarthquakeIn_def update_keys)
qed

text \<open>
  So the handler of a render made before the event was marked active, called once more
  while the event is in progress, registers a second tick loop.
\<close>

lemma stale_handler_starts_second_loop:
  "isEarthquakeActive (store busyDashboard)
   \<and> \<not> isEarthquakeActive (run demoRun)
   \<and> (\<exists>w'. handleTriggerEarthquake exactArith [demoNode1, demoNode2] (run demoRun)
              (1 / 4) (1 / 2) (\<lambda>_. 1 / 2) busyDashboard = Inr w'
          \<and> earthquakeInterval (simulator w') = Some 1
          \<and> map fst (intervals (simulator w')) = [0, 1])"
proof -
  have a: "isEarthquakeActive (store busyDashboard)"
    by (simp add: busyDashboard_def setEarthquakeActive_def)
  have b: "\<not> isEarthquakeActive (run demoRun)"
    by (simp add: store_eval)
  have s: "simulator busyDashboard = busySimulator" by (simp add: busyDashboard_def)
  from trigger_handler_starts_event[OF b, of exactArith "1 / 4" "[demoNode1, demoNode2]"
         "1 / 2" "\<lambda>_. 1 / 2" busyDashboard]
  have "\<exists>w'. handleTriggerEarthquake exactArith [demoNode1, demoNode2] (run demoRun)
              (1 / 4) (1 / 2) (\<lambda>_. 1 / 2) busyDashboard = Inr w'
          \<and> earthquakeInterval (simulator w') = Some 1
          \<and> map fst (intervals (simulator w')) = [0, 1]"
    unfolding s by (auto simp: exactArith_sel busySimulator_eq)
  with a b show ?thesis by simp
qed

text \<open>
  C10, as stated, fails: for an id that no building has, \<^const>\<open>getReading\<close> returns a
  reading (a fresh idle one, at 4.6 Hz for the draw \<open>1/2\<close>), not an absent result, and
  \<^const>\<open>getBaseline\<close> returns 5 Hz.
\<close>

theorem unknown_id_counterexample:
  "map_of (liveReadings idleSimulator) ''node-999'' = None
   \<and> getReading idleSimulator 0 (\<lambda>_. 1 / 2) ''node-999'' \<noteq> None
   \<and> map_option frequency (getReading idleSimulator 0 (\<lambda>_. 1 / 2) ''node-999'') = Some 4.6
   \<and> map_of (nodeBaselines emptyTracker) ''node-999'' = None
   \<and> getBaseline emptyTracker ''node-999'' = 5"
  by (simp add: getReading_def idleSimulator_def generateIdleReading_def damageOf_def
        baseFrequencyOf_def Let_def getBaseline_def emptyTracker_def)

text \<open>
  C10, amended. No query has a failing branch. For an id without a live reading that is
  not silenced, \<^const>\<open>getReading\<close> returns a freshly generated idle reading (that of an
  undamaged building when the simulator holds no damage for the id); it returns the
  absent result exactly for the silenced ids. For an id without a tracked baseline,
  \<^const>\<open>getBaseline\<close> returns the default of 5 Hz.
\<close>

theorem unknown_id_defaults:
  "(map_of (liveReadings sim) nodeId = None \<and> nodeId \<notin> set (deadNodes sim) \<longrightarrow>
      getReading sim now rnd nodeId = Some (generateIdleReading sim now rnd nodeId))
   \<and> (map_of (liveReadings sim) nodeId = None \<and> nodeId \<notin> set (deadNodes sim)
        \<and> map_of (currentDamages sim) nodeId = None \<longrightarrow>
      map_option frequency (getReading sim now rnd nodeId) = Some (4.5 + rnd 23 * 0.2)
      \<and> map_option signalType (getReading sim now rnd nodeId) = Some idle)
   \<and> (getReading sim now rnd nodeId = None \<longleftrightarrow> nodeId \<in> set (deadNodes sim))
   \<and> (map_of (nodeBaselines tracker) nodeId = None \<longrightarrow> getBaseline tracker nodeId = 5)"
  by (auto simp: getReading_def generateIdleReading_def damageOf_def baseFrequencyOf_def Let_def
        getBaseline_def split: option.splits)

theorem unknown_id_defaults_witness:
  "map_of (liveReadings busySimulator) ''node-999'' = None
   \<and> ''node-999'' \<notin> set (deadNodes busySimulator)
   \<and> map_of (currentDamages busySimulator) ''node-999'' = None
   \<and> getReading busySimulator 7 (\<lambda>_. 1 / 2) ''node-999''
        = Some (generateIdleReading busySimulator 7 (\<lambda>_. 1 / 2) ''node-999'')
   \<and> map_option frequency (getReading busySimulator 7 (\<lambda>_. 1 / 2) ''node-999'') = Some 4.6
   \<and> map_of (nodeBaselines emptyTracker) ''node-999'' = None
   \<and> getBaseline emptyTracker ''node-999'' = 5"
proof -
  have h: "map_of (liveReadings busySimulator) ''node-999'' = None"
    "''node-999'' \<notin> set (deadNodes busySimulator)"
    "map_of (currentDamages busySimulator) ''node-999'' = None"
    by (simp_all add: busySimulator_eq)
  have t: "map_of (nodeBaselines emptyTracker) ''node-999'' = None"
    by (simp add: emptyTracker_def)
  from unknown_id_defaults[of busySimulator "''node-999''" 7 "\<lambda>_. 1 / 2" emptyTracker] h t
  show ?thesis by auto
qed

end
